theory Spec2Isabelle
  imports Main "HOL-Library.Word"
begin

unbundle bit_operations_syntax

section \<open>Machine types and memory\<close>

type_synonym u8 = "8 word"
type_synonym u16 = "16 word"
type_synonym u32 = "32 word"
type_synonym u64 = "64 word"

text \<open>
  Memory reached through a byte pointer is a function from the byte offset to the byte
  stored there.  A caller's frame (\<open>const uint8_t* data\<close>) is such a function as well.
  \<open>memcpy_at dst off src n\<close> is \<open>std::memcpy(dst + off, src, n)\<close>: exactly the \<open>n\<close>
  bytes from offset \<open>off\<close> on are replaced, whatever lies there.
\<close>

type_synonym bytes = "nat \<Rightarrow> u8"

definition memcpy_at :: "bytes \<Rightarrow> nat \<Rightarrow> bytes \<Rightarrow> nat \<Rightarrow> bytes" where
  "memcpy_at dst off src n = (\<lambda>a. if off \<le> a \<and> a < off + n then src (a - off) else dst a)"

text \<open>
  Process memory addressed by a 64-bit virtual address, for the code that copies through a
  pointer held in a table.  \<open>memcpy_ptr mem p src n\<close> is \<open>std::memcpy(p, src, n)\<close>.
\<close>

definition nullptr :: u64 where
  "nullptr = 0"

definition memcpy_ptr :: "(u64 \<Rightarrow> u8) \<Rightarrow> u64 \<Rightarrow> bytes \<Rightarrow> nat \<Rightarrow> (u64 \<Rightarrow> u8)" where
  "memcpy_ptr mem p src n = (\<lambda>a. if unat (a - p) < n then src (unat (a - p)) else mem a)"


section \<open>solarflare\_efvi.hpp: the simulated ef\_vi backend\<close>

definition EFVI_RX_RING_SIZE :: u64 where
  "EFVI_RX_RING_SIZE = 512"

definition EFVI_TX_RING_SIZE :: u64 where
  "EFVI_TX_RING_SIZE = 512"

definition EFVI_PKT_BUF_SIZE :: u64 where
  "EFVI_PKT_BUF_SIZE = 2048"

definition EFVI_NUM_BUFS :: nat where
  "EFVI_NUM_BUFS = 1024"

text \<open>
  \<open>struct efvi_handle\<close>.  \<open>pkt_bufs\<close> is the table of buffer pointers, slot number to
  pointer value; slots \<open>0 .. EFVI_NUM_BUFS - 1\<close> are the array.
\<close>

record efvi_handle =
  fd :: "32 word"
  h_rx_ring :: u64
  h_tx_ring :: u64
  pkt_bufs :: "nat \<Rightarrow> u64"
  h_rx_posted :: u32
  h_tx_posted :: u32

text \<open>\<open>struct efvi_packet\<close>, the caller's receive structure.\<close>

record efvi_packet =
  data :: bytes
  len :: u64
  timestamp_ns :: u64

text \<open>
  \<open>class SolarflareEFVI\<close>: its four members, and the process memory \<open>ef_mem\<close> that
  \<open>submit_tx\<close> writes through a buffer pointer.
\<close>

record SolarflareEFVI =
  ef_handle :: efvi_handle
  ef_initialized :: bool
  ef_rx_posted :: u32
  ef_tx_posted :: u32
  ef_mem :: "u64 \<Rightarrow> u8"

text \<open>
  The constructor sets \<open>initialized_\<close>, \<open>rx_posted_\<close> and \<open>tx_posted_\<close>; \<open>handle_\<close> is
  left as it is found, so it is a parameter, as is the memory.
\<close>

definition SolarflareEFVI_new :: "efvi_handle \<Rightarrow> (u64 \<Rightarrow> u8) \<Rightarrow> SolarflareEFVI" where
  "SolarflareEFVI_new h m =
     \<lparr>ef_handle = h, ef_initialized = False, ef_rx_posted = 0, ef_tx_posted = 0, ef_mem = m\<rparr>"

definition allocate_packet_buffers :: "SolarflareEFVI \<Rightarrow> SolarflareEFVI" where
  "allocate_packet_buffers s =
     s\<lparr>ef_handle := (ef_handle s)
        \<lparr>pkt_bufs := (\<lambda>i. if i < EFVI_NUM_BUFS then nullptr else pkt_bufs (ef_handle s) i)\<rparr>\<rparr>"

definition post_rx_buffer :: "u32 \<Rightarrow> SolarflareEFVI \<Rightarrow> SolarflareEFVI" where
  "post_rx_buffer buf_id s = s\<lparr>ef_rx_posted := ef_rx_posted s + 1\<rparr>"

text \<open>
  \<open>initialize\<close>: the loop \<open>for (i = 0; i < EFVI_RX_RING_SIZE; i++) post_rx_buffer(i)\<close> is
  a fold over the indices.  The interface name is not read.
\<close>

definition SolarflareEFVI_initialize :: "string \<Rightarrow> SolarflareEFVI \<Rightarrow> bool \<times> SolarflareEFVI" where
  "SolarflareEFVI_initialize interface s =
     (let s1 = s\<lparr>ef_initialized := True\<rparr>;
          s2 = allocate_packet_buffers s1;
          s3 = fold (\<lambda>i. post_rx_buffer (of_nat i)) [0 ..< unat EFVI_RX_RING_SIZE] s2
      in (True, s3))"

text \<open>
  \<open>poll_rx\<close>.  \<open>now\<close> is what \<open>get_timestamp()\<close> reads from the clock at the call; the
  packet structure is passed in and returned, since the code writes two of its fields.
\<close>

definition SolarflareEFVI_poll_rx ::
  "u64 \<Rightarrow> efvi_packet \<Rightarrow> SolarflareEFVI \<Rightarrow> bool \<times> efvi_packet \<times> SolarflareEFVI" where
  "SolarflareEFVI_poll_rx now pkt s =
     (if \<not> ef_initialized s then (False, pkt, s)
      else if ef_rx_posted s > 0 then
        (let pkt1 = pkt\<lparr>len := 64, timestamp_ns := now\<rparr>;
             s1 = s\<lparr>ef_rx_posted := ef_rx_posted s - 1\<rparr>;
             s2 = post_rx_buffer (ef_rx_posted s1) s1
         in (True, pkt1, s2))
      else (False, pkt, s))"

text \<open>
  \<open>submit_tx\<close>.  \<open>tx_buf_of s\<close> is the pointer \<open>handle_.pkt_bufs[tx_posted_]\<close> that the
  copy goes through.
\<close>

definition tx_buf_of :: "SolarflareEFVI \<Rightarrow> u64" where
  "tx_buf_of s = pkt_bufs (ef_handle s) (unat (ef_tx_posted s))"

definition SolarflareEFVI_submit_tx ::
  "bytes \<Rightarrow> u64 \<Rightarrow> SolarflareEFVI \<Rightarrow> bool \<times> SolarflareEFVI" where
  "SolarflareEFVI_submit_tx dat n s =
     (if \<not> ef_initialized s then (False, s)
      else if n > EFVI_PKT_BUF_SIZE then (False, s)
      else if ucast (ef_tx_posted s) < EFVI_TX_RING_SIZE then
        (let tx_buf = tx_buf_of s;
             m1 = memcpy_ptr (ef_mem s) tx_buf dat (unat n)
         in (True, s\<lparr>ef_mem := m1, ef_tx_posted := ef_tx_posted s + 1\<rparr>))
      else (False, s))"

definition poll_tx_completions :: "SolarflareEFVI \<Rightarrow> SolarflareEFVI" where
  "poll_tx_completions s =
     (if ef_tx_posted s > 0 then s\<lparr>ef_tx_posted := ef_tx_posted s - 1\<rparr> else s)"

text \<open>
  A caller's program against an initialised object: any sequence of the three hot-path
  calls.  \<open>ef_run\<close> performs them in order and collects what each \<open>poll_rx\<close> returned.
\<close>

datatype ef_call = PollRx u64 efvi_packet | SubmitTx bytes u64 | PollTxCompletions

fun ef_run :: "ef_call list \<Rightarrow> SolarflareEFVI \<Rightarrow> (bool \<times> efvi_packet) list \<times> SolarflareEFVI" where
  "ef_run [] s = ([], s)"
| "ef_run (PollRx now pkt # cs) s =
     (case SolarflareEFVI_poll_rx now pkt s of
        (r, pkt1, s1) \<Rightarrow> (case ef_run cs s1 of (rs, s2) \<Rightarrow> ((r, pkt1) # rs, s2)))"
| "ef_run (SubmitTx dat n # cs) s = ef_run cs (snd (SolarflareEFVI_submit_tx dat n s))"
| "ef_run (PollTxCompletions # cs) s = ef_run cs (poll_tx_completions s)"

definition fabricated :: "bool \<times> efvi_packet \<Rightarrow> bool" where
  "fabricated r = (fst r \<and> len (snd r) = 64)"



section \<open>broadcom\_netxtreme.hpp: the Broadcom NetXtreme driver (class BroadcomNetXtreme)\<close>

definition REG_DEVICE_CONTROL :: u32 where "REG_DEVICE_CONTROL = 0x0068"
definition REG_RX_CONTROL :: u32 where "REG_RX_CONTROL = 0x0468"
definition REG_TX_CONTROL :: u32 where "REG_TX_CONTROL = 0x0368"
definition REG_INTERRUPT_MASK :: u32 where "REG_INTERRUPT_MASK = 0x0204"
definition REG_RX_RING_BASE_LO :: u32 where "REG_RX_RING_BASE_LO = 0x2800"
definition REG_RX_RING_BASE_HI :: u32 where "REG_RX_RING_BASE_HI = 0x2804"
definition REG_RX_RING_SIZE :: u32 where "REG_RX_RING_SIZE = 0x2808"
definition REG_RX_RING_HEAD :: u32 where "REG_RX_RING_HEAD = 0x2810"
definition REG_RX_RING_TAIL :: u32 where "REG_RX_RING_TAIL = 0x2818"
definition REG_TX_RING_BASE_LO :: u32 where "REG_TX_RING_BASE_LO = 0x3800"
definition REG_TX_RING_BASE_HI :: u32 where "REG_TX_RING_BASE_HI = 0x3804"
definition REG_TX_RING_SIZE :: u32 where "REG_TX_RING_SIZE = 0x3808"
definition REG_TX_RING_HEAD :: u32 where "REG_TX_RING_HEAD = 0x3810"
definition REG_TX_RING_TAIL :: u32 where "REG_TX_RING_TAIL = 0x3818"

definition CTRL_RX_ENABLE :: u32 where "CTRL_RX_ENABLE = push_bit 1 1"
definition CTRL_TX_ENABLE :: u32 where "CTRL_TX_ENABLE = push_bit 0 1"
definition CTRL_LOW_LATENCY_MODE :: u32 where "CTRL_LOW_LATENCY_MODE = push_bit 15 1"

definition DESC_STATUS_DD :: u32 where "DESC_STATUS_DD = push_bit 0 1"
definition DESC_CMD_EOP :: u32 where "DESC_CMD_EOP = push_bit 24 1"
definition DESC_CMD_IFCS :: u32 where "DESC_CMD_IFCS = push_bit 25 1"

text \<open>
  The class constants \<open>RX_RING_SIZE\<close>, \<open>TX_RING_SIZE\<close> and \<open>MAX_PACKET_SIZE\<close> of
  \<open>BroadcomNetXtreme\<close>, all \<open>uint32_t\<close>; the prefix keeps them apart from the constants of
  the same name in \<open>custom_driver.hpp\<close>.
\<close>

definition BNX_RX_RING_SIZE :: u32 where "BNX_RX_RING_SIZE = 1024"
definition BNX_TX_RING_SIZE :: u32 where "BNX_TX_RING_SIZE = 1024"
definition MAX_PACKET_SIZE :: u32 where "MAX_PACKET_SIZE = 9216"

record RxDescriptor =
  rxd_buffer_addr :: u64
  rxd_length :: u16
  rxd_checksum :: u16
  rxd_status :: u8
  rxd_errors :: u8
  rxd_vlan_tag :: u16
  rxd_rss_hash :: u32
  rxd_timestamp_lo :: u32

record TxDescriptor =
  txd_buffer_addr :: u64
  txd_cmd_type_len :: u32
  txd_status :: u8
  txd_checksum_offset :: u8
  txd_vlan_tag :: u16
  txd_timestamp_req :: u32
  txd_reserved :: u32

text \<open>
  The object.  \<open>b_bar0\<close> is the register window, register offset to value.  A ring is the
  memory behind its base pointer, slot number to descriptor, slots \<open>0 .. 1023\<close> being the
  allocation.  \<open>b_rx_buffers_ptr\<close> and \<open>b_tx_buffers_ptr\<close> are the pointers \<open>rx_buffers_\<close>
  and \<open>tx_buffers_\<close>; \<open>b_rx_buffers\<close> and \<open>b_tx_buffers\<close> are the bytes behind them, each
  one contiguous region in which slot \<open>i\<close> starts at offset \<open>i * MAX_PACKET_SIZE\<close>.
\<close>

record BroadcomNetXtreme =
  b_bar0 :: "u32 \<Rightarrow> u32"
  b_rx_ring :: "nat \<Rightarrow> RxDescriptor"
  b_tx_ring :: "nat \<Rightarrow> TxDescriptor"
  b_rx_buffers_ptr :: u64
  b_tx_buffers_ptr :: u64
  b_rx_buffers :: bytes
  b_tx_buffers :: bytes
  b_rx_head :: u32
  b_tx_head :: u32
  b_tx_tail :: u32
  b_packets_received :: u64
  b_packets_sent :: u64
  b_initialized :: bool

definition read_reg :: "BroadcomNetXtreme \<Rightarrow> u32 \<Rightarrow> u32" where
  "read_reg s offset = b_bar0 s offset"

definition write_reg :: "u32 \<Rightarrow> u32 \<Rightarrow> BroadcomNetXtreme \<Rightarrow> BroadcomNetXtreme" where
  "write_reg offset v s = s\<lparr>b_bar0 := (b_bar0 s)(offset := v)\<rparr>"

definition get_physical_addr :: "u64 \<Rightarrow> u64" where
  "get_physical_addr virt_addr = virt_addr"

text \<open>The tests \<open>desc->status & DESC_STATUS_DD\<close>, the 8-bit status promoted to 32 bits.\<close>

definition rxd_done :: "RxDescriptor \<Rightarrow> bool" where
  "rxd_done d = (ucast (rxd_status d) AND DESC_STATUS_DD \<noteq> 0)"

definition txd_done :: "TxDescriptor \<Rightarrow> bool" where
  "txd_done d = (ucast (txd_status d) AND DESC_STATUS_DD \<noteq> 0)"

text \<open>
  \<open>receive_packet\<close>.  The two out-parameters are written only on the path that returns
  \<open>true\<close>, so the result is \<open>Some (packet_out, len_out)\<close> for \<open>true\<close> and \<open>None\<close> for
  \<open>false\<close>.  The prefetch has no effect on the state.
\<close>

definition receive_packet :: "BroadcomNetXtreme \<Rightarrow> (u64 \<times> u16) option \<times> BroadcomNetXtreme" where
  "receive_packet s =
     (let desc = b_rx_ring s (unat (b_rx_head s)) in
      if \<not> rxd_done desc then (None, s)
      else
        let packet_out = b_rx_buffers_ptr s + ucast (b_rx_head s * MAX_PACKET_SIZE);
            len_out = rxd_length desc;
            s1 = s\<lparr>b_rx_ring := (b_rx_ring s)(unat (b_rx_head s) := desc\<lparr>rxd_status := 0\<rparr>)\<rparr>;
            s2 = s1\<lparr>b_rx_head := (b_rx_head s1 + 1) AND (BNX_RX_RING_SIZE - 1)\<rparr>;
            s3 = write_reg REG_RX_RING_TAIL ((b_rx_head s2 - 1) AND (BNX_RX_RING_SIZE - 1)) s2;
            s4 = s3\<lparr>b_packets_received := b_packets_received s3 + 1\<rparr>
        in (Some (packet_out, len_out), s4))"

text \<open>
  \<open>reclaim_tx_descriptors\<close>: the \<open>while\<close> loop, one iteration per unfolding.  The loop
  need not end in every state of the type, so the function is partial: \<open>None\<close> is the loop
  that never leaves.
\<close>

partial_function (option) reclaim_tx_descriptors :: "BroadcomNetXtreme \<Rightarrow> BroadcomNetXtreme option" where
  "reclaim_tx_descriptors s =
     (if b_tx_head s \<noteq> b_tx_tail s then
        (if \<not> txd_done (b_tx_ring s (unat (b_tx_head s))) then Some s
         else reclaim_tx_descriptors (s\<lparr>b_tx_head := (b_tx_head s + 1) AND (BNX_TX_RING_SIZE - 1)\<rparr>))
      else Some s)"

text \<open>
  \<open>send_packet\<close>.  \<open>enqueue_tx\<close> is the part of the body after the ring-full test: the
  copy into the slot at \<open>tx_tail_\<close>, the descriptor, the tail and the counter.
\<close>

definition enqueue_tx :: "bytes \<Rightarrow> u16 \<Rightarrow> u32 \<Rightarrow> BroadcomNetXtreme \<Rightarrow> BroadcomNetXtreme" where
  "enqueue_tx dat n next_tail s =
     (let off = unat (b_tx_tail s * MAX_PACKET_SIZE);
          tx_buffer = b_tx_buffers_ptr s + of_nat off;
          s1 = s\<lparr>b_tx_buffers := memcpy_at (b_tx_buffers s) off dat (unat n)\<rparr>;
          desc = (b_tx_ring s1 (unat (b_tx_tail s1)))
                   \<lparr>txd_buffer_addr := get_physical_addr tx_buffer,
                    txd_cmd_type_len := ucast n OR DESC_CMD_EOP OR DESC_CMD_IFCS,
                    txd_status := 0,
                    txd_checksum_offset := 0,
                    txd_vlan_tag := 0\<rparr>;
          s2 = s1\<lparr>b_tx_ring := (b_tx_ring s1)(unat (b_tx_tail s1) := desc)\<rparr>;
          s3 = s2\<lparr>b_tx_tail := next_tail\<rparr>;
          s4 = write_reg REG_TX_RING_TAIL (b_tx_tail s3) s3
      in s4\<lparr>b_packets_sent := b_packets_sent s4 + 1\<rparr>)"

definition send_packet ::
  "bytes \<Rightarrow> u16 \<Rightarrow> BroadcomNetXtreme \<Rightarrow> (bool \<times> BroadcomNetXtreme) option" where
  "send_packet dat n s =
     (let next_tail = (b_tx_tail s + 1) AND (BNX_TX_RING_SIZE - 1) in
      if next_tail = b_tx_head s then
        (case reclaim_tx_descriptors s of
           None \<Rightarrow> None
         | Some s1 \<Rightarrow>
             if next_tail = b_tx_head s1 then Some (False, s1)
             else Some (True, enqueue_tx dat n next_tail s1))
      else Some (True, enqueue_tx dat n next_tail s))"

text \<open>The ring-full test of \<open>send_packet\<close>, \<open>next_tail == tx_head_\<close>, on its own.\<close>

definition tx_ring_full :: "BroadcomNetXtreme \<Rightarrow> bool" where
  "tx_ring_full s = ((b_tx_tail s + 1) AND (BNX_TX_RING_SIZE - 1) = b_tx_head s)"

definition get_packets_received :: "BroadcomNetXtreme \<Rightarrow> u64 \<times> BroadcomNetXtreme" where
  "get_packets_received s = (b_packets_received s, s)"

definition get_packets_sent :: "BroadcomNetXtreme \<Rightarrow> u64 \<times> BroadcomNetXtreme" where
  "get_packets_sent s = (b_packets_sent s, s)"

text \<open>
  The object after \<open>initialize()\<close> has returned \<open>true\<close>: the constructor's cursors and
  counters, the zero-filled rings of \<open>allocate_rings\<close> with every RX descriptor bound to its
  buffer, and the register writes of \<open>initialize\<close> in their order.  The parameters are what
  the operating system hands out: the register window as the device reset left it, the
  addresses of the two rings and of the two buffer regions, and the bytes found in them.
\<close>

definition zero_RxDescriptor :: RxDescriptor where
  "zero_RxDescriptor =
     \<lparr>rxd_buffer_addr = 0, rxd_length = 0, rxd_checksum = 0, rxd_status = 0, rxd_errors = 0,
      rxd_vlan_tag = 0, rxd_rss_hash = 0, rxd_timestamp_lo = 0\<rparr>"

definition zero_TxDescriptor :: TxDescriptor where
  "zero_TxDescriptor =
     \<lparr>txd_buffer_addr = 0, txd_cmd_type_len = 0, txd_status = 0, txd_checksum_offset = 0,
      txd_vlan_tag = 0, txd_timestamp_req = 0, txd_reserved = 0\<rparr>"

definition enable_rx_tx :: "BroadcomNetXtreme \<Rightarrow> BroadcomNetXtreme" where
  "enable_rx_tx s =
     (let s1 = write_reg REG_RX_CONTROL (read_reg s REG_RX_CONTROL OR CTRL_RX_ENABLE) s
      in write_reg REG_TX_CONTROL (read_reg s1 REG_TX_CONTROL OR CTRL_TX_ENABLE) s1)"

definition BroadcomNetXtreme_initialized ::
  "(u32 \<Rightarrow> u32) \<Rightarrow> u64 \<Rightarrow> u64 \<Rightarrow> u64 \<Rightarrow> u64 \<Rightarrow> bytes \<Rightarrow> bytes \<Rightarrow> BroadcomNetXtreme" where
  "BroadcomNetXtreme_initialized regs rx_ring_ptr tx_ring_ptr rx_ptr tx_ptr rx_mem tx_mem =
     (let s0 = \<lparr>b_bar0 = regs,
                b_rx_ring = (\<lambda>i. zero_RxDescriptor
                   \<lparr>rxd_buffer_addr := get_physical_addr (rx_ptr + ucast (of_nat i * MAX_PACKET_SIZE))\<rparr>),
                b_tx_ring = (\<lambda>i. zero_TxDescriptor),
                b_rx_buffers_ptr = rx_ptr, b_tx_buffers_ptr = tx_ptr,
                b_rx_buffers = rx_mem, b_tx_buffers = tx_mem,
                b_rx_head = 0, b_tx_head = 0, b_tx_tail = 0,
                b_packets_received = 0, b_packets_sent = 0, b_initialized = False\<rparr>;
          s1 = write_reg REG_RX_RING_BASE_LO (ucast (get_physical_addr rx_ring_ptr AND 0xFFFFFFFF)) s0;
          s2 = write_reg REG_RX_RING_BASE_HI (ucast (drop_bit 32 (get_physical_addr rx_ring_ptr))) s1;
          s3 = write_reg REG_RX_RING_SIZE BNX_RX_RING_SIZE s2;
          s4 = write_reg REG_RX_RING_HEAD 0 s3;
          s5 = write_reg REG_RX_RING_TAIL (BNX_RX_RING_SIZE - 1) s4;
          s6 = write_reg REG_TX_RING_BASE_LO (ucast (get_physical_addr tx_ring_ptr AND 0xFFFFFFFF)) s5;
          s7 = write_reg REG_TX_RING_BASE_HI (ucast (drop_bit 32 (get_physical_addr tx_ring_ptr))) s6;
          s8 = write_reg REG_TX_RING_SIZE BNX_TX_RING_SIZE s7;
          s9 = write_reg REG_TX_RING_HEAD 0 s8;
          s10 = write_reg REG_TX_RING_TAIL 0 s9;
          s11 = write_reg REG_INTERRUPT_MASK 0xFFFFFFFF s10;
          s12 = write_reg REG_DEVICE_CONTROL (read_reg s11 REG_DEVICE_CONTROL OR CTRL_LOW_LATENCY_MODE) s11;
          s13 = enable_rx_tx s12
      in s13\<lparr>b_initialized := True\<rparr>)"

text \<open>
  The other side of the rings.  The device completes a transmission by setting DD in the
  status byte of a TX descriptor, and delivers a frame by writing the length and setting
  DD in an RX descriptor.  Neither is code of the driver; they are the events the driver
  polls for.
\<close>

definition hw_tx_done :: "nat \<Rightarrow> BroadcomNetXtreme \<Rightarrow> BroadcomNetXtreme" where
  "hw_tx_done i s =
     s\<lparr>b_tx_ring := (b_tx_ring s)
        (i := (b_tx_ring s i)\<lparr>txd_status := txd_status (b_tx_ring s i) OR ucast DESC_STATUS_DD\<rparr>)\<rparr>"

definition hw_rx_frame :: "nat \<Rightarrow> u16 \<Rightarrow> BroadcomNetXtreme \<Rightarrow> BroadcomNetXtreme" where
  "hw_rx_frame i n s =
     s\<lparr>b_rx_ring := (b_rx_ring s)
        (i := (b_rx_ring s i)\<lparr>rxd_length := n,
                               rxd_status := rxd_status (b_rx_ring s i) OR ucast DESC_STATUS_DD\<rparr>)\<rparr>"

text \<open>
  \<open>hw_tx_done_oldest k s\<close>: the device completes the \<open>k\<close> oldest pending transmissions,
  the slots \<open>tx_head_, tx_head_ + 1, ...\<close> taken modulo the ring size.
\<close>

definition hw_tx_done_oldest :: "nat \<Rightarrow> BroadcomNetXtreme \<Rightarrow> BroadcomNetXtreme" where
  "hw_tx_done_oldest k s =
     fold (\<lambda>i. hw_tx_done ((unat (b_tx_head s) + i) mod unat BNX_TX_RING_SIZE)) [0 ..< k] s"

text \<open>Consecutive calls of \<open>send_packet\<close>, one per frame, with the value each returned.\<close>

fun send_packets ::
  "(bytes \<times> u16) list \<Rightarrow> BroadcomNetXtreme \<Rightarrow> (bool list \<times> BroadcomNetXtreme) option" where
  "send_packets [] s = Some ([], s)"
| "send_packets (f # fs) s =
     (case send_packet (fst f) (snd f) s of
        None \<Rightarrow> None
      | Some (r, s1) \<Rightarrow>
          (case send_packets fs s1 of
             None \<Rightarrow> None
           | Some (rs, s2) \<Rightarrow> Some (r # rs, s2)))"

text \<open>
  Any interleaving of driver calls and device events, for the statements about every
  sequence of operations.
\<close>

datatype bnx_event =
    Receive
  | Send bytes u16
  | Reclaim
  | GetPacketsReceived
  | GetPacketsSent
  | HwTxDone nat
  | HwRxFrame nat u16

fun bnx_step :: "bnx_event \<Rightarrow> BroadcomNetXtreme \<Rightarrow> BroadcomNetXtreme option" where
  "bnx_step Receive s = Some (snd (receive_packet s))"
| "bnx_step (Send dat n) s = map_option snd (send_packet dat n s)"
| "bnx_step Reclaim s = reclaim_tx_descriptors s"
| "bnx_step GetPacketsReceived s = Some (snd (get_packets_received s))"
| "bnx_step GetPacketsSent s = Some (snd (get_packets_sent s))"
| "bnx_step (HwTxDone i) s = Some (hw_tx_done i s)"
| "bnx_step (HwRxFrame i n) s = Some (hw_rx_frame i n s)"

fun bnx_run :: "bnx_event list \<Rightarrow> BroadcomNetXtreme \<Rightarrow> BroadcomNetXtreme option" where
  "bnx_run [] s = Some s"
| "bnx_run (e # es) s = (case bnx_step e s of None \<Rightarrow> None | Some s1 \<Rightarrow> bnx_run es s1)"



section \<open>custom\_driver.hpp: the memory-mapped driver (class CustomNICDriver)\<close>

text \<open>The ring and buffer sizes are \<open>size_t\<close> constants, the register offsets \<open>uint64_t\<close>.\<close>

definition RX_RING_SIZE :: u64 where "RX_RING_SIZE = 512"
definition TX_RING_SIZE :: u64 where "TX_RING_SIZE = 512"
definition PACKET_BUFFER_SIZE :: u64 where "PACKET_BUFFER_SIZE = 2048"

definition RX_BASE_LO :: u64 where "RX_BASE_LO = 0x2800"
definition RX_BASE_HI :: u64 where "RX_BASE_HI = 0x2804"
definition RX_LEN :: u64 where "RX_LEN = 0x2808"
definition RX_HEAD :: u64 where "RX_HEAD = 0x2810"
definition RX_TAIL :: u64 where "RX_TAIL = 0x2818"
definition TX_BASE_LO :: u64 where "TX_BASE_LO = 0x6000"
definition TX_BASE_HI :: u64 where "TX_BASE_HI = 0x6004"
definition TX_LEN :: u64 where "TX_LEN = 0x6008"
definition TX_HEAD :: u64 where "TX_HEAD = 0x6010"
definition TX_TAIL :: u64 where "TX_TAIL = 0x6018"

definition RX_DD_BIT :: u32 where "RX_DD_BIT = push_bit 0 1"
definition TX_DD_BIT :: u32 where "TX_DD_BIT = push_bit 0 1"

text \<open>
  \<open>struct RXDescriptor\<close>.  The anonymous union lays \<open>pkt_len\<close>, \<open>hdr_len\<close> and
  \<open>status_flags\<close> over the 64-bit \<open>status\<close>; the record keeps the three members, and the
  one write to \<open>status\<close> (the \<open>status = 0\<close> of \<open>initialize\<close>) sets all three.
\<close>

record RXDescriptor =
  rx_buffer_addr :: u64
  rx_header_addr :: u64
  pkt_len :: u16
  hdr_len :: u16
  status_flags :: u32
  rx_reserved :: u64

record TXDescriptor =
  tx_buffer_addr :: u64
  cmd_type_len :: u64
  olinfo_status :: u64
  tx_reserved :: u64

text \<open>
  \<open>struct PacketStats\<close> of \<open>common_types.hpp\<close> and its default constructor, as the header
  is quoted in \<open>PROJECT_SUMMARY.md\<close>.
\<close>

record PacketStats =
  packets_received :: u64
  packets_transmitted :: u64
  bytes_received :: u64
  bytes_transmitted :: u64
  rx_errors :: u64
  tx_errors :: u64
  rx_dropped :: u64
  tx_dropped :: u64

definition PacketStats_new :: PacketStats where
  "PacketStats_new =
     \<lparr>packets_received = 0, packets_transmitted = 0, bytes_received = 0, bytes_transmitted = 0,
      rx_errors = 0, tx_errors = 0, rx_dropped = 0, tx_dropped = 0\<rparr>"

text \<open>
  The object.  \<open>c_bar0\<close> is the register window.  \<open>c_rx_buffers\<close> and \<open>c_tx_buffers\<close> are
  the pointer tables \<open>rx_buffers_\<close> and \<open>tx_buffers_\<close>; every buffer is an allocation of its
  own, and \<open>c_rx_data i\<close>, \<open>c_tx_data i\<close> are the bytes of the buffer behind pointer \<open>i\<close>.
  \<open>c_pagemap\<close> is the translation from a virtual to a physical address that
  \<open>virt_to_phys\<close> works out from \<open>/proc/self/pagemap\<close>.
\<close>

record CustomNICDriver =
  c_bar0 :: "u64 \<Rightarrow> u32"
  c_rx_ring :: "nat \<Rightarrow> RXDescriptor"
  c_tx_ring :: "nat \<Rightarrow> TXDescriptor"
  c_rx_buffers :: "nat \<Rightarrow> u64"
  c_tx_buffers :: "nat \<Rightarrow> u64"
  c_rx_data :: "nat \<Rightarrow> bytes"
  c_tx_data :: "nat \<Rightarrow> bytes"
  c_rx_head :: u32
  c_tx_tail :: u32
  c_initialized :: bool
  c_pagemap :: "u64 \<Rightarrow> u64"

definition read_reg32 :: "CustomNICDriver \<Rightarrow> u64 \<Rightarrow> u32" where
  "read_reg32 s offset = c_bar0 s offset"

definition write_reg32 :: "u64 \<Rightarrow> u32 \<Rightarrow> CustomNICDriver \<Rightarrow> CustomNICDriver" where
  "write_reg32 offset v s = s\<lparr>c_bar0 := (c_bar0 s)(offset := v)\<rparr>"

definition virt_to_phys :: "CustomNICDriver \<Rightarrow> u64 \<Rightarrow> u64" where
  "virt_to_phys s virt_addr = c_pagemap s virt_addr"

text \<open>
  \<open>poll_rx\<close>: \<open>Some (packet_data, packet_len)\<close> for \<open>true\<close>, \<open>None\<close> for \<open>false\<close>.  In
  \<open>(rx_head_ + 1) & (RX_RING_SIZE - 1)\<close> the sum is 32 bits wide, the mask 64, and the
  result is stored back into 32 bits.
\<close>

definition CustomNICDriver_poll_rx :: "CustomNICDriver \<Rightarrow> (u64 \<times> u64) option \<times> CustomNICDriver" where
  "CustomNICDriver_poll_rx s =
     (let hw_head = read_reg32 s RX_HEAD in
      if hw_head = c_rx_head s then (None, s)
      else
        let desc = c_rx_ring s (unat (c_rx_head s)) in
        if status_flags desc AND RX_DD_BIT = 0 then (None, s)
        else
          let packet_data = c_rx_buffers s (unat (c_rx_head s));
              packet_len = ucast (pkt_len desc);
              s1 = s\<lparr>c_rx_ring := (c_rx_ring s)(unat (c_rx_head s) := desc\<lparr>status_flags := 0\<rparr>)\<rparr>;
              s2 = s1\<lparr>c_rx_head := ucast (ucast (c_rx_head s1 + 1) AND (RX_RING_SIZE - 1))\<rparr>;
              s3 = write_reg32 RX_TAIL (c_rx_head s2) s2
          in (Some (packet_data, packet_len), s3))"

text \<open>\<open>submit_tx\<close>; \<open>packet_len\<close> is a \<open>size_t\<close>.\<close>

definition CustomNICDriver_submit_tx ::
  "bytes \<Rightarrow> u64 \<Rightarrow> CustomNICDriver \<Rightarrow> bool \<times> CustomNICDriver" where
  "CustomNICDriver_submit_tx packet_data packet_len s =
     (if packet_len > PACKET_BUFFER_SIZE then (False, s)
      else
        let t = unat (c_tx_tail s);
            s1 = s\<lparr>c_tx_data := (c_tx_data s)(t := memcpy_at (c_tx_data s t) 0 packet_data (unat packet_len))\<rparr>;
            desc = (c_tx_ring s1 t)
                     \<lparr>tx_buffer_addr := virt_to_phys s1 (c_tx_buffers s1 t),
                      cmd_type_len := push_bit 16 packet_len OR push_bit 0 1,
                      olinfo_status := 0\<rparr>;
            s2 = s1\<lparr>c_tx_ring := (c_tx_ring s1)(t := desc)\<rparr>;
            new_tail = ucast (ucast (c_tx_tail s2 + 1) AND (TX_RING_SIZE - 1));
            s3 = write_reg32 TX_TAIL new_tail s2
        in (True, s3\<lparr>c_tx_tail := new_tail\<rparr>))"

definition poll_tx_completion :: "CustomNICDriver \<Rightarrow> bool" where
  "poll_tx_completion s = (read_reg32 s TX_HEAD \<noteq> c_tx_tail s)"

definition CustomNICDriver_get_stats :: "CustomNICDriver \<Rightarrow> PacketStats \<times> CustomNICDriver" where
  "CustomNICDriver_get_stats s = (PacketStats_new, s)"

text \<open>
  The object after \<open>initialize\<close> has returned \<open>true\<close>: the constructor's cursors, the rings
  as the anonymous mappings deliver them (zero-filled) with every RX descriptor bound to
  its buffer, and the register writes of \<open>program_rx_ring\<close> and \<open>program_tx_ring\<close>.  The
  parameters are what the operating system hands out.
\<close>

definition zero_RXDescriptor :: RXDescriptor where
  "zero_RXDescriptor =
     \<lparr>rx_buffer_addr = 0, rx_header_addr = 0, pkt_len = 0, hdr_len = 0, status_flags = 0,
      rx_reserved = 0\<rparr>"

definition zero_TXDescriptor :: TXDescriptor where
  "zero_TXDescriptor = \<lparr>tx_buffer_addr = 0, cmd_type_len = 0, olinfo_status = 0, tx_reserved = 0\<rparr>"

definition program_rx_ring :: "u64 \<Rightarrow> CustomNICDriver \<Rightarrow> CustomNICDriver" where
  "program_rx_ring rx_ring_ptr s =
     (let rx_ring_phys = virt_to_phys s rx_ring_ptr;
          s1 = write_reg32 RX_BASE_LO (ucast (rx_ring_phys AND 0xFFFFFFFF)) s;
          s2 = write_reg32 RX_BASE_HI (ucast (drop_bit 32 rx_ring_phys)) s1;
          s3 = write_reg32 RX_LEN (ucast (RX_RING_SIZE * 32)) s2;
          s4 = write_reg32 RX_HEAD 0 s3
      in write_reg32 RX_TAIL (ucast (RX_RING_SIZE - 1)) s4)"

definition program_tx_ring :: "u64 \<Rightarrow> CustomNICDriver \<Rightarrow> CustomNICDriver" where
  "program_tx_ring tx_ring_ptr s =
     (let tx_ring_phys = virt_to_phys s tx_ring_ptr;
          s1 = write_reg32 TX_BASE_LO (ucast (tx_ring_phys AND 0xFFFFFFFF)) s;
          s2 = write_reg32 TX_BASE_HI (ucast (drop_bit 32 tx_ring_phys)) s1;
          s3 = write_reg32 TX_LEN (ucast (TX_RING_SIZE * 32)) s2;
          s4 = write_reg32 TX_HEAD 0 s3
      in write_reg32 TX_TAIL 0 s4)"

definition CustomNICDriver_initialized ::
  "(u64 \<Rightarrow> u32) \<Rightarrow> (u64 \<Rightarrow> u64) \<Rightarrow> u64 \<Rightarrow> u64 \<Rightarrow> (nat \<Rightarrow> u64) \<Rightarrow> (nat \<Rightarrow> u64) \<Rightarrow> CustomNICDriver" where
  "CustomNICDriver_initialized regs pagemap rx_ring_ptr tx_ring_ptr rx_ptrs tx_ptrs =
     (let s0 = \<lparr>c_bar0 = regs,
                c_rx_ring = (\<lambda>i. zero_RXDescriptor\<lparr>rx_buffer_addr := pagemap (rx_ptrs i)\<rparr>),
                c_tx_ring = (\<lambda>i. zero_TXDescriptor),
                c_rx_buffers = rx_ptrs, c_tx_buffers = tx_ptrs,
                c_rx_data = (\<lambda>i a. 0), c_tx_data = (\<lambda>i a. 0),
                c_rx_head = 0, c_tx_tail = 0, c_initialized = False, c_pagemap = pagemap\<rparr>;
          s1 = program_rx_ring rx_ring_ptr s0;
          s2 = program_tx_ring tx_ring_ptr s1
      in s2\<lparr>c_initialized := True\<rparr>)"

text \<open>
  The device's side: it delivers a frame by writing the length and DD into the RX
  descriptor of a slot and moving its head register on.
\<close>

definition hw_rx_deliver :: "nat \<Rightarrow> u16 \<Rightarrow> u32 \<Rightarrow> CustomNICDriver \<Rightarrow> CustomNICDriver" where
  "hw_rx_deliver i n hw_head s =
     (s\<lparr>c_rx_ring := (c_rx_ring s)
         (i := (c_rx_ring s i)\<lparr>pkt_len := n, status_flags := status_flags (c_rx_ring s i) OR RX_DD_BIT\<rparr>)\<rparr>)
      \<lparr>c_bar0 := (c_bar0 s)(RX_HEAD := hw_head)\<rparr>"

text \<open>Consecutive calls of \<open>submit_tx\<close>, one per frame, with the value each returned.\<close>

fun CustomNICDriver_submit_all ::
  "(bytes \<times> u64) list \<Rightarrow> CustomNICDriver \<Rightarrow> bool list \<times> CustomNICDriver" where
  "CustomNICDriver_submit_all [] s = ([], s)"
| "CustomNICDriver_submit_all (f # fs) s =
     (case CustomNICDriver_submit_tx (fst f) (snd f) s of
        (r, s1) \<Rightarrow> (case CustomNICDriver_submit_all fs s1 of (rs, s2) \<Rightarrow> (r # rs, s2)))"



section \<open>Auxiliary predicates\<close>

text \<open>
  \<open>tx_cursors_in_ring\<close>: both TX cursors of the Broadcom driver index a slot of the ring.
  \<open>counted s s'\<close>: from \<open>s\<close> to \<open>s'\<close> each of the two counters stayed or went up by one.
\<close>

definition tx_cursors_in_ring :: "BroadcomNetXtreme \<Rightarrow> bool" where
  "tx_cursors_in_ring s \<longleftrightarrow> unat (b_tx_head s) < 1024 \<and> unat (b_tx_tail s) < 1024"

definition counted :: "BroadcomNetXtreme \<Rightarrow> BroadcomNetXtreme \<Rightarrow> bool" where
  "counted s s' \<longleftrightarrow>
     (b_packets_received s' = b_packets_received s \<or>
      b_packets_received s' = b_packets_received s + 1) \<and>
     (b_packets_sent s' = b_packets_sent s \<or> b_packets_sent s' = b_packets_sent s + 1)"


section \<open>Example states\<close>

text \<open>
  Concrete inputs on which the statements below are evaluated.  For the simulated
  backend: a handle as the constructor may find it, and a caller's packet structure.
\<close>

definition example_handle :: efvi_handle where
  "example_handle =
     \<lparr>fd = 3, h_rx_ring = 0, h_tx_ring = 0, pkt_bufs = (\<lambda>i. 4096), h_rx_posted = 0, h_tx_posted = 0\<rparr>"

definition example_packet :: efvi_packet where
  "example_packet = \<lparr>data = (\<lambda>a. 0), len = 0, timestamp_ns = 0\<rparr>"

text \<open>
  For the Broadcom driver: \<open>bnx_example\<close> is the object after \<open>initialize()\<close> on a device
  whose registers read 0, with rings and buffer regions at fixed addresses and zero-filled
  buffers.  \<open>bnx_full_example\<close> is a full TX ring, head 0 and tail 1023, in which no
  descriptor is completed.  \<open>bnx_done_example\<close> has five frames pending, of which the
  device has completed the two oldest.  \<open>bnx_rx_example\<close> and \<open>bnx_rx_oversize_example\<close>
  have a frame delivered into RX slot 0, with a descriptor length of 64 and of 65535.
  \<open>bnx_wrap_example\<close> is \<open>bnx_rx_example\<close> with \<open>packets_received_\<close> at its largest
  value.  \<open>frame64\<close> is a 64-byte frame.
\<close>

definition bnx_example :: BroadcomNetXtreme where
  "bnx_example =
     BroadcomNetXtreme_initialized (\<lambda>r. 0) 0x10000 0x20000 0x1000000 0x2000000 (\<lambda>a. 0) (\<lambda>a. 0)"

definition bnx_full_example :: BroadcomNetXtreme where
  "bnx_full_example = bnx_example\<lparr>b_tx_tail := 1023\<rparr>"

definition bnx_done_example :: BroadcomNetXtreme where
  "bnx_done_example = hw_tx_done 1 (hw_tx_done 0 (bnx_example\<lparr>b_tx_tail := 5\<rparr>))"

definition frame64 :: "bytes \<times> u16" where
  "frame64 = (\<lambda>a. 0xAA, 64)"

text \<open>
  For the memory-mapped driver: \<open>custom_example\<close> is the object after \<open>initialize\<close> on a
  device whose registers read 0, with an identity page map.  In \<open>custom_polled_example\<close>
  the device has moved its RX head register to 1 without completing a descriptor; in
  \<open>custom_rx_example\<close> and \<open>custom_rx_oversize_example\<close> it has delivered a frame into RX
  slot 0, with a descriptor length of 64 and of 65535.
\<close>

definition custom_example :: CustomNICDriver where
  "custom_example =
     CustomNICDriver_initialized (\<lambda>r. 0) (\<lambda>a. a) 0x10000 0x20000
       (\<lambda>i. 0x1000000 + of_nat i * 0x1000) (\<lambda>i. 0x2000000 + of_nat i * 0x1000)"

definition custom_frame64 :: "bytes \<times> u64" where
  "custom_frame64 = (\<lambda>a. 0xAA, 64)"

definition custom_polled_example :: CustomNICDriver where
  "custom_polled_example = custom_example\<lparr>c_bar0 := (c_bar0 custom_example)(RX_HEAD := 1)\<rparr>"

definition bnx_rx_example :: BroadcomNetXtreme where
  "bnx_rx_example = hw_rx_frame 0 64 bnx_example"

definition bnx_rx_oversize_example :: BroadcomNetXtreme where
  "bnx_rx_oversize_example = hw_rx_frame 0 0xFFFF bnx_example"

definition custom_rx_example :: CustomNICDriver where
  "custom_rx_example = hw_rx_deliver 0 64 1 custom_example"

definition custom_rx_oversize_example :: CustomNICDriver where
  "custom_rx_oversize_example = hw_rx_deliver 0 0xFFFF 1 custom_example"

definition bnx_wrap_example :: BroadcomNetXtreme where
  "bnx_wrap_example = bnx_rx_example\<lparr>b_packets_received := 0xFFFFFFFFFFFFFFFF\<rparr>"


section \<open>Properties of the simulated ef\_vi backend\<close>

lemma fold_post_rx_buffer:
  "fold (\<lambda>i. post_rx_buffer (of_nat i)) xs s = s\<lparr>ef_rx_posted := ef_rx_posted s + of_nat (length xs)\<rparr>"
  by (induction xs arbitrary: s) (simp_all add: post_rx_buffer_def)

lemma initialize_state:
  "snd (SolarflareEFVI_initialize iface s) =
     (allocate_packet_buffers (s\<lparr>ef_initialized := True\<rparr>))\<lparr>ef_rx_posted := ef_rx_posted s + 512\<rparr>"
  by (simp add: SolarflareEFVI_initialize_def fold_post_rx_buffer EFVI_RX_RING_SIZE_def
      allocate_packet_buffers_def Let_def)

lemma poll_rx_posted:
  assumes "ef_initialized s" and "ef_rx_posted s \<noteq> 0"
  shows "SolarflareEFVI_poll_rx now pkt s = (True, pkt\<lparr>len := 64, timestamp_ns := now\<rparr>, s)"
  using assms by (simp add: SolarflareEFVI_poll_rx_def post_rx_buffer_def word_greater_zero_iff)

lemma submit_tx_keeps_rx:
  "ef_initialized (snd (SolarflareEFVI_submit_tx dat n s)) = ef_initialized s \<and>
   ef_rx_posted (snd (SolarflareEFVI_submit_tx dat n s)) = ef_rx_posted s"
  by (simp add: SolarflareEFVI_submit_tx_def Let_def)

lemma poll_tx_completions_keeps_rx:
  "ef_initialized (poll_tx_completions s) = ef_initialized s \<and>
   ef_rx_posted (poll_tx_completions s) = ef_rx_posted s"
  by (simp add: poll_tx_completions_def)

lemma ef_run_always_packet:
  assumes "ef_initialized s" and "ef_rx_posted s \<noteq> 0"
  shows "list_all fabricated (fst (ef_run cs s)) \<and>
         ef_rx_posted (snd (ef_run cs s)) = ef_rx_posted s \<and>
         ef_initialized (snd (ef_run cs s))"
  using assms
proof (induction cs s rule: ef_run.induct)
  case (1 s)
  then show ?case by simp
next
  case (2 now pkt cs s)
  have step: "SolarflareEFVI_poll_rx now pkt s = (True, pkt\<lparr>len := 64, timestamp_ns := now\<rparr>, s)"
    using "2.prems" by (rule poll_rx_posted)
  from "2.IH" [OF step [symmetric] refl "2.prems"] show ?case
    by (auto simp add: step fabricated_def split: prod.splits)
next
  case (3 dat n cs s)
  then show ?case by (simp add: submit_tx_keeps_rx)
next
  case (4 cs s)
  then show ?case by (simp add: poll_tx_completions_keeps_rx)
qed

section \<open>Ring arithmetic and the Broadcom transmit path\<close>

subsection \<open>Indices modulo the ring size\<close>

lemma mask_1023: "(1023 :: u32) = mask 10"
  by (simp add: mask_eq_exp_minus_1)

lemma unat_next_1024: "unat (((x::u32) + 1) AND 1023) = (unat x + 1) mod 1024"
proof -
  have "unat ((x + 1) AND mask 10) = unat (x + 1) mod 2 ^ 10"
    by (simp add: unsigned_take_bit_eq take_bit_eq_mod unat_mod flip: take_bit_eq_mask)
  also have "unat (x + 1) = (unat x + 1) mod 2 ^ 32"
    by (simp add: unat_word_ariths)
  also have "(unat x + 1) mod 2 ^ 32 mod 2 ^ 10 = (unat x + 1) mod 2 ^ 10"
    by (rule mod_mod_cancel) simp
  finally show ?thesis
    by (simp add: mask_1023)
qed

lemma bnx_tx_next: "unat ((x + 1) AND (BNX_TX_RING_SIZE - 1)) = (unat x + 1) mod 1024"
  by (simp add: BNX_TX_RING_SIZE_def unat_next_1024)

lemma bnx_rx_next: "unat ((x + 1) AND (BNX_RX_RING_SIZE - 1)) = (unat x + 1) mod 1024"
  by (simp add: BNX_RX_RING_SIZE_def unat_next_1024)

lemma txd_done_clear [simp]: "\<not> txd_done (d\<lparr>txd_status := 0\<rparr>)"
  by (simp add: txd_done_def)

lemma txd_done_set: "txd_done (d\<lparr>txd_status := st OR ucast DESC_STATUS_DD\<rparr>)"
  apply (simp add: txd_done_def DESC_STATUS_DD_def)
  apply (simp add: bit_eq_iff bit_simps)
  apply (rule exI[of _ 0])
  apply simp
  done

lemma ring_step_neq:
  assumes "h < (1024::nat)" "0 < v" "v < 1024"
  shows "(h + v) mod 1024 \<noteq> h"
proof
  assume eq: "(h + v) mod 1024 = h"
  show False
  proof (cases "h + v < 1024")
    case True
    with eq assms show False by simp
  next
    case False
    then have "(h + v) mod 1024 = h + v - 1024"
      using assms by (simp add: mod_if)
    with eq assms False show False by simp
  qed
qed

lemma ring_dist:
  assumes "h < (1024::nat)" "t < 1024"
  shows "(h + (t + 1024 - h) mod 1024) mod 1024 = t"
proof (cases "h \<le> t")
  case True
  then have "(t + 1024 - h) mod 1024 = t - h"
    using assms by (simp add: mod_if)
  with True assms show ?thesis by simp
next
  case False
  then have "(t + 1024 - h) mod 1024 = t + 1024 - h"
    using assms by simp
  with False assms show ?thesis by (simp add: mod_if)
qed

lemma ring_inj:
  assumes "h < (1024::nat)" "a < 1024" "b < 1024" "(h + a) mod 1024 = (h + b) mod 1024"
  shows "a = b"
proof -
  have ma: "(h + a) mod 1024 = (if h + a < 1024 then h + a else h + a - 1024)"
    using assms(1,2) by (simp add: mod_if)
  have mb: "(h + b) mod 1024 = (if h + b < 1024 then h + b else h + b - 1024)"
    using assms(1,3) by (simp add: mod_if)
  from assms show ?thesis
    unfolding ma mb by (simp split: if_splits)
qed

lemma ring_full_tail:
  assumes "t < (1024::nat)" "(t + 1) mod 1024 = h"
  shows "t = (h + 1023) mod 1024"
proof (cases "t = 1023")
  case True
  with assms show ?thesis by simp
next
  case False
  with assms have "h = t + 1" by simp
  with assms show ?thesis by (simp add: mod_if)
qed

lemma u32_unat_of_nat: "n < 1024 \<Longrightarrow> unat (of_nat n :: 32 word) = n"
  by (simp add: unat_of_nat)

subsection \<open>The copy into the slot at the tail\<close>

lemma enqueue_tx_fields:
  "b_tx_head (enqueue_tx dat n nt s) = b_tx_head s"
  "b_tx_tail (enqueue_tx dat n nt s) = nt"
  "b_rx_head (enqueue_tx dat n nt s) = b_rx_head s"
  "b_rx_ring (enqueue_tx dat n nt s) = b_rx_ring s"
  "b_packets_received (enqueue_tx dat n nt s) = b_packets_received s"
  "b_packets_sent (enqueue_tx dat n nt s) = b_packets_sent s + 1"
  by (simp_all add: enqueue_tx_def Let_def write_reg_def)

lemma enqueue_tx_ring:
  "b_tx_ring (enqueue_tx dat n nt s) i =
     (if i = unat (b_tx_tail s) then
        (b_tx_ring s i)\<lparr>txd_buffer_addr := get_physical_addr (b_tx_buffers_ptr s + of_nat (unat (b_tx_tail s * MAX_PACKET_SIZE))),
                        txd_cmd_type_len := ucast n OR DESC_CMD_EOP OR DESC_CMD_IFCS,
                        txd_status := 0, txd_checksum_offset := 0, txd_vlan_tag := 0\<rparr>
      else b_tx_ring s i)"
  by (simp add: enqueue_tx_def Let_def write_reg_def)

lemma enqueue_tx_done:
  "txd_done (b_tx_ring (enqueue_tx dat n nt s) i) = (i \<noteq> unat (b_tx_tail s) \<and> txd_done (b_tx_ring s i))"
  by (simp add: enqueue_tx_ring txd_done_def)

subsection \<open>The reclaim loop\<close>

lemma reclaim_head_only:
  assumes "reclaim_tx_descriptors s = Some s1"
  shows "\<exists>h. s1 = s\<lparr>b_tx_head := h\<rparr>"
proof (rule reclaim_tx_descriptors.raw_induct
    [where P = "\<lambda>s s1. \<exists>h. s1 = s\<lparr>b_tx_head := h\<rparr>", OF _ assms])
  fix rec :: "BroadcomNetXtreme \<Rightarrow> BroadcomNetXtreme option" and s s1
  assume IH: "\<And>x y. rec x = Some y \<Longrightarrow> \<exists>h. y = x\<lparr>b_tx_head := h\<rparr>"
    and eq: "(if b_tx_head s \<noteq> b_tx_tail s
              then if \<not> txd_done (b_tx_ring s (unat (b_tx_head s))) then Some s
                   else rec (s\<lparr>b_tx_head := (b_tx_head s + 1) AND (BNX_TX_RING_SIZE - 1)\<rparr>)
              else Some s) = Some s1"
  show "\<exists>h. s1 = s\<lparr>b_tx_head := h\<rparr>"
  proof (cases "b_tx_head s \<noteq> b_tx_tail s \<and> txd_done (b_tx_ring s (unat (b_tx_head s)))")
    case True
    with eq have "rec (s\<lparr>b_tx_head := (b_tx_head s + 1) AND (BNX_TX_RING_SIZE - 1)\<rparr>) = Some s1"
      by simp
    from IH [OF this] obtain h
      where "s1 = s\<lparr>b_tx_head := (b_tx_head s + 1) AND (BNX_TX_RING_SIZE - 1)\<rparr>\<lparr>b_tx_head := h\<rparr>"
      by blast
    then have "s1 = s\<lparr>b_tx_head := h\<rparr>" by simp
    then show ?thesis by blast
  next
    case False
    with eq have "s1 = s" by (auto split: if_splits)
    then have "s1 = s\<lparr>b_tx_head := b_tx_head s\<rparr>" by simp
    then show ?thesis by blast
  qed
qed

lemma reclaim_run:
  assumes "unat (b_tx_head s) < 1024"
    and "\<forall>i<j. txd_done (b_tx_ring s ((unat (b_tx_head s) + i) mod 1024)) \<and>
               (unat (b_tx_head s) + i) mod 1024 \<noteq> unat (b_tx_tail s)"
    and "(unat (b_tx_head s) + j) mod 1024 = unat (b_tx_tail s) \<or>
         \<not> txd_done (b_tx_ring s ((unat (b_tx_head s) + j) mod 1024))"
  shows "reclaim_tx_descriptors s = Some (s\<lparr>b_tx_head := of_nat ((unat (b_tx_head s) + j) mod 1024)\<rparr>)"
  using assms
proof (induction j arbitrary: s)
  case 0
  have same: "s\<lparr>b_tx_head := of_nat (unat (b_tx_head s) mod 1024)\<rparr> = s"
    using "0.prems"(1) by simp
  from "0.prems"(1,3) have "b_tx_head s = b_tx_tail s \<or> \<not> txd_done (b_tx_ring s (unat (b_tx_head s)))"
    by (auto simp: word_unat_eq_iff)
  then have "reclaim_tx_descriptors s = Some s"
    by (subst reclaim_tx_descriptors.simps) auto
  with same show ?case by simp
next
  case (Suc j)
  let ?h = "unat (b_tx_head s)"
  let ?s1 = "s\<lparr>b_tx_head := (b_tx_head s + 1) AND (BNX_TX_RING_SIZE - 1)\<rparr>"
  from Suc.prems(1) Suc.prems(2) [rule_format, of 0] have here: "txd_done (b_tx_ring s ?h)" "b_tx_head s \<noteq> b_tx_tail s"
    by auto
  have h1: "unat (b_tx_head ?s1) = (?h + 1) mod 1024"
    by (simp add: bnx_tx_next)
  have shift: "(unat (b_tx_head ?s1) + i) mod 1024 = (?h + Suc i) mod 1024" for i
    unfolding h1 by (simp add: mod_add_left_eq)
  have lt: "unat (b_tx_head ?s1) < 1024"
    unfolding h1 by simp
  have run: "\<forall>i<j. txd_done (b_tx_ring ?s1 ((unat (b_tx_head ?s1) + i) mod 1024)) \<and>
        (unat (b_tx_head ?s1) + i) mod 1024 \<noteq> unat (b_tx_tail ?s1)"
  proof (intro allI impI)
    fix i assume "i < j"
    then have "Suc i < Suc j" by simp
    from Suc.prems(2) [rule_format, OF this]
    show "txd_done (b_tx_ring ?s1 ((unat (b_tx_head ?s1) + i) mod 1024)) \<and>
        (unat (b_tx_head ?s1) + i) mod 1024 \<noteq> unat (b_tx_tail ?s1)"
      unfolding shift by simp
  qed
  have stop: "(unat (b_tx_head ?s1) + j) mod 1024 = unat (b_tx_tail ?s1) \<or>
        \<not> txd_done (b_tx_ring ?s1 ((unat (b_tx_head ?s1) + j) mod 1024))"
    using Suc.prems(3) unfolding shift by simp
  have "reclaim_tx_descriptors ?s1 = Some (?s1\<lparr>b_tx_head := of_nat ((unat (b_tx_head ?s1) + j) mod 1024)\<rparr>)"
    using lt run stop by (rule Suc.IH)
  then have "reclaim_tx_descriptors ?s1 = Some (s\<lparr>b_tx_head := of_nat ((?h + Suc j) mod 1024)\<rparr>)"
    unfolding shift by simp
  moreover have "reclaim_tx_descriptors s = reclaim_tx_descriptors ?s1"
    by (subst reclaim_tx_descriptors.simps) (simp only: here if_True if_False simp_thms)
  ultimately show ?case
    by (simp only:)
qed

lemma reclaim_total:
  assumes "unat (b_tx_head s) < 1024" and "unat (b_tx_tail s) < 1024"
  shows "\<exists>j. reclaim_tx_descriptors s =
             Some (s\<lparr>b_tx_head := of_nat ((unat (b_tx_head s) + j) mod 1024)\<rparr>) \<and>
           (\<forall>i<j. txd_done (b_tx_ring s ((unat (b_tx_head s) + i) mod 1024)) \<and>
                  (unat (b_tx_head s) + i) mod 1024 \<noteq> unat (b_tx_tail s)) \<and>
           ((unat (b_tx_head s) + j) mod 1024 = unat (b_tx_tail s) \<or>
            \<not> txd_done (b_tx_ring s ((unat (b_tx_head s) + j) mod 1024)))"
proof -
  let ?h = "unat (b_tx_head s)" and ?t = "unat (b_tx_tail s)"
  define P where "P j \<longleftrightarrow> (?h + j) mod 1024 = ?t \<or> \<not> txd_done (b_tx_ring s ((?h + j) mod 1024))" for j
  have "P ((?t + 1024 - ?h) mod 1024)"
    unfolding P_def using ring_dist [OF assms] by simp
  then have stop: "P (LEAST j. P j)"
    by (rule LeastI)
  have run: "\<forall>i<(LEAST j. P j). txd_done (b_tx_ring s ((?h + i) mod 1024)) \<and> (?h + i) mod 1024 \<noteq> ?t"
  proof (intro allI impI)
    fix i assume "i < (LEAST j. P j)"
    then have "\<not> P i" by (rule not_less_Least)
    then show "txd_done (b_tx_ring s ((?h + i) mod 1024)) \<and> (?h + i) mod 1024 \<noteq> ?t"
      by (simp add: P_def)
  qed
  from stop have stop': "(?h + (LEAST j. P j)) mod 1024 = ?t \<or>
      \<not> txd_done (b_tx_ring s ((?h + (LEAST j. P j)) mod 1024))"
    by (simp add: P_def)
  from reclaim_run [OF assms(1) run stop'] run stop' show ?thesis
    by blast
qed

subsection \<open>Sending\<close>

lemma tx_ring_full_iff:
  "tx_ring_full s \<longleftrightarrow> (unat (b_tx_tail s) + 1) mod 1024 = unat (b_tx_head s)"
  by (simp add: tx_ring_full_def word_unat_eq_iff bnx_tx_next)

lemma send_packet_room:
  assumes "\<not> tx_ring_full s"
  shows "send_packet dat n s =
           Some (True, enqueue_tx dat n ((b_tx_tail s + 1) AND (BNX_TX_RING_SIZE - 1)) s)"
  using assms by (simp add: send_packet_def tx_ring_full_def Let_def)

lemma send_packet_full:
  assumes "tx_ring_full s"
  shows "send_packet dat n s =
           (case reclaim_tx_descriptors s of
              None \<Rightarrow> None
            | Some s1 \<Rightarrow>
                if tx_ring_full s1 then Some (False, s1)
                else Some (True, enqueue_tx dat n ((b_tx_tail s1 + 1) AND (BNX_TX_RING_SIZE - 1)) s1))"
proof (cases "reclaim_tx_descriptors s")
  case None
  with assms show ?thesis
    by (simp add: send_packet_def tx_ring_full_def Let_def)
next
  case (Some s1)
  from reclaim_head_only [OF Some] obtain h where "s1 = s\<lparr>b_tx_head := h\<rparr>" ..
  then have "b_tx_tail s1 = b_tx_tail s" by simp
  with assms Some show ?thesis
    by (simp add: send_packet_def tx_ring_full_def Let_def)
qed

lemma send_packet_stuck:
  assumes "tx_ring_full s" and "\<not> txd_done (b_tx_ring s (unat (b_tx_head s)))"
  shows "send_packet dat n s = Some (False, s)"
proof -
  have "reclaim_tx_descriptors s = Some s"
    using assms(2) by (subst reclaim_tx_descriptors.simps) simp
  with assms(1) show ?thesis
    by (simp add: send_packet_full)
qed

lemma send_packets_append:
  "send_packets (fs @ gs) s =
     (case send_packets fs s of
        None \<Rightarrow> None
      | Some (rs, s1) \<Rightarrow>
          (case send_packets gs s1 of None \<Rightarrow> None | Some (qs, s2) \<Rightarrow> Some (rs @ qs, s2)))"
  by (induction fs arbitrary: s) (auto split: option.splits prod.splits)

lemma send_packets_room:
  assumes "unat (b_tx_head s) < 1024"
    and "unat (b_tx_tail s) = (unat (b_tx_head s) + u) mod 1024"
    and "u + length fs < 1024"
  shows "\<exists>s'. send_packets fs s = Some (replicate (length fs) True, s') \<and>
              b_tx_head s' = b_tx_head s \<and>
              unat (b_tx_tail s') = (unat (b_tx_head s) + (u + length fs)) mod 1024 \<and>
              (\<forall>i. txd_done (b_tx_ring s' i) \<longrightarrow> txd_done (b_tx_ring s i)) \<and>
              (\<forall>j<length fs. \<not> txd_done (b_tx_ring s' ((unat (b_tx_head s) + (u + j)) mod 1024)))"
  using assms
proof (induction fs arbitrary: s u)
  case Nil
  then show ?case by simp
next
  case (Cons f fs)
  let ?h = "unat (b_tx_head s)"
  let ?nt = "(b_tx_tail s + 1) AND (BNX_TX_RING_SIZE - 1)"
  let ?s1 = "enqueue_tx (fst f) (snd f) ?nt s"
  have nt: "unat ?nt = (?h + Suc u) mod 1024"
    by (simp add: bnx_tx_next Cons.prems(2) mod_Suc_eq)
  have "(?h + Suc u) mod 1024 \<noteq> ?h"
    using Cons.prems(1,3) by (intro ring_step_neq) simp_all
  with nt have room: "\<not> tx_ring_full s"
    by (simp add: tx_ring_full_def word_unat_eq_iff)
  have step: "send_packet (fst f) (snd f) s = Some (True, ?s1)"
    using room by (rule send_packet_room)
  have h1: "b_tx_head ?s1 = b_tx_head s" and t1: "b_tx_tail ?s1 = ?nt"
    by (simp_all add: enqueue_tx_fields)
  have "\<exists>s'. send_packets fs ?s1 = Some (replicate (length fs) True, s') \<and>
              b_tx_head s' = b_tx_head ?s1 \<and>
              unat (b_tx_tail s') = (unat (b_tx_head ?s1) + (Suc u + length fs)) mod 1024 \<and>
              (\<forall>i. txd_done (b_tx_ring s' i) \<longrightarrow> txd_done (b_tx_ring ?s1 i)) \<and>
              (\<forall>j<length fs. \<not> txd_done (b_tx_ring s' ((unat (b_tx_head ?s1) + (Suc u + j)) mod 1024)))"
  proof (rule Cons.IH)
    show "unat (b_tx_head ?s1) < 1024" using Cons.prems(1) by (simp add: h1)
    show "unat (b_tx_tail ?s1) = (unat (b_tx_head ?s1) + Suc u) mod 1024"
      by (simp only: h1 t1 nt)
    show "Suc u + length fs < 1024" using Cons.prems(3) by simp
  qed
  then obtain s' where rest: "send_packets fs ?s1 = Some (replicate (length fs) True, s')"
    and head: "b_tx_head s' = b_tx_head ?s1"
    and tail: "unat (b_tx_tail s') = (unat (b_tx_head ?s1) + (Suc u + length fs)) mod 1024"
    and mono: "\<forall>i. txd_done (b_tx_ring s' i) \<longrightarrow> txd_done (b_tx_ring ?s1 i)"
    and written: "\<forall>j<length fs. \<not> txd_done (b_tx_ring s' ((unat (b_tx_head ?s1) + (Suc u + j)) mod 1024))"
    by blast
  have run: "send_packets (f # fs) s = Some (replicate (length (f # fs)) True, s')"
    by (simp add: step rest)
  have mono': "\<forall>i. txd_done (b_tx_ring s' i) \<longrightarrow> txd_done (b_tx_ring s i)"
    using mono by (simp add: enqueue_tx_done)
  have written': "\<forall>j<length (f # fs). \<not> txd_done (b_tx_ring s' ((?h + (u + j)) mod 1024))"
  proof (intro allI impI)
    fix j assume j: "j < length (f # fs)"
    show "\<not> txd_done (b_tx_ring s' ((?h + (u + j)) mod 1024))"
    proof (cases j)
      case 0
      have "\<not> txd_done (b_tx_ring ?s1 (unat (b_tx_tail s)))"
        by (simp add: enqueue_tx_done)
      with mono have "\<not> txd_done (b_tx_ring s' (unat (b_tx_tail s)))" by blast
      with 0 show ?thesis by (simp add: Cons.prems(2))
    next
      case (Suc j')
      with j have "j' < length fs" by simp
      with written have "\<not> txd_done (b_tx_ring s' ((unat (b_tx_head ?s1) + (Suc u + j')) mod 1024))"
        by blast
      with Suc show ?thesis by (simp add: h1)
    qed
  qed
  from run head tail mono' written' show ?case
    by (auto simp add: h1)
qed

subsection \<open>Completions by the device\<close>

lemma hw_tx_done_done:
  "txd_done (b_tx_ring (hw_tx_done x s) m) \<longleftrightarrow> m = x \<or> txd_done (b_tx_ring s m)"
  by (simp add: hw_tx_done_def txd_done_set)

lemma fold_hw_tx_done:
  "\<exists>r. fold hw_tx_done xs s = s\<lparr>b_tx_ring := r\<rparr> \<and>
       (\<forall>m. txd_done (r m) \<longleftrightarrow> txd_done (b_tx_ring s m) \<or> m \<in> set xs)"
proof (induction xs arbitrary: s)
  case Nil
  have "s = s\<lparr>b_tx_ring := b_tx_ring s\<rparr>" by simp
  then show ?case by (intro exI [of _ "b_tx_ring s"]) simp
next
  case (Cons x xs)
  from Cons.IH [of "hw_tx_done x s"] obtain r
    where r: "fold hw_tx_done xs (hw_tx_done x s) = (hw_tx_done x s)\<lparr>b_tx_ring := r\<rparr>"
      and d: "\<forall>m. txd_done (r m) \<longleftrightarrow> txd_done (b_tx_ring (hw_tx_done x s) m) \<or> m \<in> set xs"
    by blast
  have "(hw_tx_done x s)\<lparr>b_tx_ring := r\<rparr> = s\<lparr>b_tx_ring := r\<rparr>"
    by (simp add: hw_tx_done_def)
  with r d show ?case
    by (intro exI [of _ r]) (auto simp add: hw_tx_done_done)
qed

lemma hw_tx_done_oldest_state:
  "\<exists>r. hw_tx_done_oldest k s = s\<lparr>b_tx_ring := r\<rparr> \<and>
       (\<forall>m. txd_done (r m) \<longleftrightarrow>
             txd_done (b_tx_ring s m) \<or> (\<exists>i<k. m = (unat (b_tx_head s) + i) mod 1024))"
proof -
  have "hw_tx_done_oldest k s =
        fold hw_tx_done (map (\<lambda>i. (unat (b_tx_head s) + i) mod 1024) [0..<k]) s"
    by (simp add: hw_tx_done_oldest_def BNX_TX_RING_SIZE_def fold_map comp_def)
  moreover from fold_hw_tx_done [of "map (\<lambda>i. (unat (b_tx_head s) + i) mod 1024) [0..<k]" s]
  obtain r where "fold hw_tx_done (map (\<lambda>i. (unat (b_tx_head s) + i) mod 1024) [0..<k]) s =
        s\<lparr>b_tx_ring := r\<rparr>"
    and "\<forall>m. txd_done (r m) \<longleftrightarrow> txd_done (b_tx_ring s m) \<or>
           m \<in> set (map (\<lambda>i. (unat (b_tx_head s) + i) mod 1024) [0..<k])"
    by blast
  moreover have "m \<in> set (map (\<lambda>i. (unat (b_tx_head s) + i) mod 1024) [0..<k]) \<longleftrightarrow>
        (\<exists>i<k. m = (unat (b_tx_head s) + i) mod 1024)" for m
    by auto
  ultimately show ?thesis
    by (intro exI [of _ r]) simp
qed

subsection \<open>A full ring\<close>

lemma full_then_stuck:
  assumes head: "unat (b_tx_head s) < 1024"
    and tail: "unat (b_tx_tail s) = (unat (b_tx_head s) + 1023) mod 1024"
    and fresh: "\<not> txd_done (b_tx_ring s (unat (b_tx_head s)))"
  shows "send_packet dat n s = Some (False, s)"
proof -
  have "(unat (b_tx_tail s) + 1) mod 1024 = (unat (b_tx_head s) + 1024) mod 1024"
    unfolding tail by (simp add: mod_Suc_eq)
  with head have "tx_ring_full s"
    by (simp add: tx_ring_full_iff)
  then show ?thesis using fresh by (rule send_packet_stuck)
qed

lemma fill_then_stuck:
  assumes head: "unat (b_tx_head s) < 1024"
    and tail: "unat (b_tx_tail s) = (unat (b_tx_head s) + u) mod 1024"
    and len: "u + length fs = 1023"
    and fresh: "fs = [] \<Longrightarrow> \<not> txd_done (b_tx_ring s (unat (b_tx_head s)))"
    and reused: "u \<noteq> 0 \<Longrightarrow> \<not> txd_done (b_tx_ring s (unat (b_tx_head s)))"
  shows "\<exists>s'. send_packets (fs @ [g]) s = Some (replicate (length fs) True @ [False], s') \<and>
              b_tx_head s' = b_tx_head s"
proof -
  from len have "u + length fs < 1024" by simp
  from send_packets_room [OF head tail this] obtain s'
    where run: "send_packets fs s = Some (replicate (length fs) True, s')"
      and h': "b_tx_head s' = b_tx_head s"
      and t': "unat (b_tx_tail s') = (unat (b_tx_head s) + (u + length fs)) mod 1024"
      and mono: "\<forall>i. txd_done (b_tx_ring s' i) \<longrightarrow> txd_done (b_tx_ring s i)"
      and written: "\<forall>j<length fs. \<not> txd_done (b_tx_ring s' ((unat (b_tx_head s) + (u + j)) mod 1024))"
    by blast
  have "\<not> txd_done (b_tx_ring s' (unat (b_tx_head s)))"
  proof (cases "u = 0 \<and> fs \<noteq> []")
    case True
    with written [rule_format, of 0] head show ?thesis by simp
  next
    case False
    then have "\<not> txd_done (b_tx_ring s (unat (b_tx_head s)))"
      using fresh reused by blast
    with mono show ?thesis by blast
  qed
  then have "send_packet (fst g) (snd g) s' = Some (False, s')"
    using head t' len by (intro full_then_stuck) (simp_all add: h')
  with run h' show ?thesis
    by (simp add: send_packets_append)
qed

lemma reclaim_after_completions:
  assumes tail: "unat (b_tx_tail f) < 1024" and full: "tx_ring_full f"
    and pending: "\<forall>i<1023. \<not> txd_done (b_tx_ring f ((unat (b_tx_head f) + i) mod 1024))"
    and k: "k \<le> 1023" and len: "length fs = k"
  shows "\<exists>s1 s2. s1 = (hw_tx_done_oldest k f)\<lparr>b_tx_head := of_nat ((unat (b_tx_head f) + k) mod 1024)\<rparr> \<and>
           reclaim_tx_descriptors (hw_tx_done_oldest k f) = Some s1 \<and>
           send_packets (fs @ [g]) s1 = Some (replicate k True @ [False], s2)"
proof -
  let ?h = "unat (b_tx_head f)" and ?t = "unat (b_tx_tail f)"
  let ?m = "hw_tx_done_oldest k f"
  from full have ht: "(?t + 1) mod 1024 = ?h"
    by (simp add: tx_ring_full_iff)
  then have h: "?h < 1024"
    by (metis mod_less_divisor zero_less_numeral)
  from tail ht have t: "?t = (?h + 1023) mod 1024"
    by (rule ring_full_tail)
  from hw_tx_done_oldest_state [of k f] obtain r
    where m: "?m = f\<lparr>b_tx_ring := r\<rparr>"
      and r: "\<forall>m. txd_done (r m) \<longleftrightarrow>
                txd_done (b_tx_ring f m) \<or> (\<exists>i<k. m = (?h + i) mod 1024)"
    by blast
  have mh: "b_tx_head ?m = b_tx_head f" and mt: "b_tx_tail ?m = b_tx_tail f"
    and mr: "b_tx_ring ?m = r"
    by (simp_all add: m)
  have run: "\<forall>i<k. txd_done (b_tx_ring ?m ((unat (b_tx_head ?m) + i) mod 1024)) \<and>
               (unat (b_tx_head ?m) + i) mod 1024 \<noteq> unat (b_tx_tail ?m)"
  proof (intro allI impI conjI)
    fix i assume i: "i < k"
    then show "txd_done (b_tx_ring ?m ((unat (b_tx_head ?m) + i) mod 1024))"
      unfolding mh mr using r by blast
    show "(unat (b_tx_head ?m) + i) mod 1024 \<noteq> unat (b_tx_tail ?m)"
    proof
      assume "(unat (b_tx_head ?m) + i) mod 1024 = unat (b_tx_tail ?m)"
      then have eq: "(?h + i) mod 1024 = (?h + 1023) mod 1024"
        unfolding mh mt t .
      from i k have "i < 1024" by simp
      from ring_inj [OF h this _ eq] have "i = 1023" by simp
      with i k show False by simp
    qed
  qed
  have fresh: "\<not> txd_done (r ((?h + k) mod 1024))" if "k < 1023"
  proof -
    from pending that have "\<not> txd_done (b_tx_ring f ((?h + k) mod 1024))"
      by blast
    moreover have "\<not> (\<exists>i<k. (?h + k) mod 1024 = (?h + i) mod 1024)"
    proof
      assume "\<exists>i<k. (?h + k) mod 1024 = (?h + i) mod 1024"
      then obtain i where i: "i < k" and eq: "(?h + k) mod 1024 = (?h + i) mod 1024"
        by blast
      from i k have "k < 1024" "i < 1024" by simp_all
      from ring_inj [OF h this eq] i show False by simp
    qed
    ultimately show ?thesis using r by blast
  qed
  have stop: "(unat (b_tx_head ?m) + k) mod 1024 = unat (b_tx_tail ?m) \<or>
         \<not> txd_done (b_tx_ring ?m ((unat (b_tx_head ?m) + k) mod 1024))"
  proof (cases "k = 1023")
    case True
    have "(unat (b_tx_head ?m) + 1023) mod 1024 = unat (b_tx_tail ?m)"
      unfolding mh mt t ..
    then show ?thesis unfolding True ..
  next
    case False
    with k have "k < 1023" by simp
    then show ?thesis unfolding mh mr using fresh by blast
  qed
  let ?s1 = "?m\<lparr>b_tx_head := of_nat ((?h + k) mod 1024)\<rparr>"
  have "unat (b_tx_head ?m) < 1024" using h by (simp add: mh)
  from reclaim_run [OF this run stop] have rec: "reclaim_tx_descriptors ?m = Some ?s1"
    by (simp add: mh)
  have h1: "unat (b_tx_head ?s1) = (?h + k) mod 1024"
    by (simp add: u32_unat_of_nat)
  have "((?h + k) mod 1024 + (1023 - k)) mod 1024 = (?h + k + (1023 - k)) mod 1024"
    by (rule mod_add_left_eq)
  also have "?h + k + (1023 - k) = ?h + 1023"
    using k by simp
  finally have "?t = ((?h + k) mod 1024 + (1023 - k)) mod 1024"
    unfolding t by (rule sym)
  moreover have "b_tx_tail ?s1 = b_tx_tail f"
    by (simp add: mt)
  ultimately have t1: "unat (b_tx_tail ?s1) = (unat (b_tx_head ?s1) + (1023 - k)) mod 1024"
    unfolding h1 by (simp only:)
  have r1: "b_tx_ring ?s1 = r"
    by (simp add: mr)
  have free: "\<not> txd_done (b_tx_ring ?s1 (unat (b_tx_head ?s1)))" if "k < 1023"
    unfolding h1 r1 using that by (rule fresh)
  have "\<exists>s'. send_packets (fs @ [g]) ?s1 = Some (replicate (length fs) True @ [False], s') \<and>
              b_tx_head s' = b_tx_head ?s1"
  proof (rule fill_then_stuck [where u = "1023 - k"])
    show "unat (b_tx_head ?s1) < 1024" unfolding h1 by simp
    show "unat (b_tx_tail ?s1) = (unat (b_tx_head ?s1) + (1023 - k)) mod 1024" by (rule t1)
    show "1023 - k + length fs = 1023" using k len by simp
    show "\<not> txd_done (b_tx_ring ?s1 (unat (b_tx_head ?s1)))" if "fs = []"
      using that len by (intro free) simp
    show "\<not> txd_done (b_tx_ring ?s1 (unat (b_tx_head ?s1)))" if "1023 - k \<noteq> 0"
      using that by (intro free) simp
  qed
  with rec len show ?thesis by blast
qed

lemma bnx_example_fields:
  "b_tx_head bnx_example = 0"
  "b_tx_tail bnx_example = 0"
  "b_rx_head bnx_example = 0"
  "b_tx_ring bnx_example = (\<lambda>i. zero_TxDescriptor)"
  "b_tx_buffers bnx_example = (\<lambda>a. 0)"
  "b_tx_buffers_ptr bnx_example = 0x2000000"
  "b_packets_received bnx_example = 0"
  "b_packets_sent bnx_example = 0"
  by (simp_all add: bnx_example_def BroadcomNetXtreme_initialized_def Let_def write_reg_def
      enable_rx_tx_def read_reg_def)

lemma txd_done_zero: "\<not> txd_done zero_TxDescriptor"
  by (simp add: txd_done_def zero_TxDescriptor_def)

lemma CustomNICDriver_submit_tx_rejects_oversize:
  assumes "PACKET_BUFFER_SIZE < packet_len"
  shows "CustomNICDriver_submit_tx packet_data packet_len s = (False, s)"
  using assms by (simp add: CustomNICDriver_submit_tx_def)

lemma bnx_full_example_fields:
  "b_tx_head bnx_full_example = 0"
  "b_tx_tail bnx_full_example = 1023"
  "b_tx_ring bnx_full_example = (\<lambda>i. zero_TxDescriptor)"
  by (simp_all add: bnx_full_example_def bnx_example_fields)

lemma CustomNICDriver_submit_tx_accepts:
  assumes "packet_len \<le> PACKET_BUFFER_SIZE"
  shows "fst (CustomNICDriver_submit_tx packet_data packet_len s)"
  using assms by (simp add: CustomNICDriver_submit_tx_def Let_def)

lemma CustomNICDriver_submit_all_accepts:
  assumes "\<forall>x\<in>set fs. snd x \<le> PACKET_BUFFER_SIZE"
  shows "fst (CustomNICDriver_submit_all fs s) = replicate (length fs) True"
  using assms
proof (induction fs arbitrary: s)
  case Nil
  then show ?case by simp
next
  case (Cons f fs)
  from Cons.prems have "fst (CustomNICDriver_submit_tx (fst f) (snd f) s)"
    by (intro CustomNICDriver_submit_tx_accepts) simp
  moreover from Cons.prems
  have "fst (CustomNICDriver_submit_all fs (snd (CustomNICDriver_submit_tx (fst f) (snd f) s))) =
      replicate (length fs) True"
    by (intro Cons.IH) simp
  ultimately show ?case
    by (auto split: prod.splits)
qed

lemma capacity_after_reclaim:
  assumes tail: "unat (b_tx_tail f) < 1024" and full: "tx_ring_full f"
    and run: "\<forall>i<j. txd_done (b_tx_ring f ((unat (b_tx_head f) + i) mod 1024)) \<and>
                    (unat (b_tx_head f) + i) mod 1024 \<noteq> unat (b_tx_tail f)"
    and stop: "(unat (b_tx_head f) + j) mod 1024 = unat (b_tx_tail f) \<or>
               \<not> txd_done (b_tx_ring f ((unat (b_tx_head f) + j) mod 1024))"
    and len: "length fs = j"
  shows "j \<le> 1023 \<and>
         reclaim_tx_descriptors f =
           Some (f\<lparr>b_tx_head := of_nat ((unat (b_tx_head f) + j) mod 1024)\<rparr>) \<and>
         (\<exists>s2. send_packets (fs @ [g])
                 (f\<lparr>b_tx_head := of_nat ((unat (b_tx_head f) + j) mod 1024)\<rparr>) =
               Some (replicate j True @ [False], s2))"
proof -
  let ?h = "unat (b_tx_head f)" and ?t = "unat (b_tx_tail f)"
  let ?s1 = "f\<lparr>b_tx_head := of_nat ((?h + j) mod 1024)\<rparr>"
  from full have ht: "(?t + 1) mod 1024 = ?h"
    by (simp add: tx_ring_full_iff)
  then have h: "?h < 1024"
    by (metis mod_less_divisor zero_less_numeral)
  from tail ht have t: "?t = (?h + 1023) mod 1024"
    by (rule ring_full_tail)
  have j: "j \<le> 1023"
  proof (rule ccontr)
    assume "\<not> j \<le> 1023"
    then have "1023 < j" by simp
    with run have "(?h + 1023) mod 1024 \<noteq> ?t" by blast
    with t show False by simp
  qed
  have rec: "reclaim_tx_descriptors f = Some ?s1"
    using h run stop by (rule reclaim_run)
  have h1: "unat (b_tx_head ?s1) = (?h + j) mod 1024"
    by (simp add: u32_unat_of_nat)
  have "((?h + j) mod 1024 + (1023 - j)) mod 1024 = (?h + j + (1023 - j)) mod 1024"
    by (rule mod_add_left_eq)
  also have "?h + j + (1023 - j) = ?h + 1023"
    using j by simp
  finally have "?t = ((?h + j) mod 1024 + (1023 - j)) mod 1024"
    unfolding t by (rule sym)
  moreover have "b_tx_tail ?s1 = b_tx_tail f"
    by simp
  ultimately have t1: "unat (b_tx_tail ?s1) = (unat (b_tx_head ?s1) + (1023 - j)) mod 1024"
    unfolding h1 by (simp only:)
  have free: "\<not> txd_done (b_tx_ring ?s1 (unat (b_tx_head ?s1)))" if "j < 1023"
  proof -
    have "(?h + j) mod 1024 \<noteq> ?t"
    proof
      assume "(?h + j) mod 1024 = ?t"
      then have eq: "(?h + j) mod 1024 = (?h + 1023) mod 1024"
        unfolding t .
      from that have "j < 1024" by simp
      from ring_inj [OF h this _ eq] that show False by simp
    qed
    with stop have "\<not> txd_done (b_tx_ring f ((?h + j) mod 1024))" by blast
    then show ?thesis unfolding h1 by simp
  qed
  have "\<exists>s'. send_packets (fs @ [g]) ?s1 = Some (replicate (length fs) True @ [False], s') \<and>
              b_tx_head s' = b_tx_head ?s1"
  proof (rule fill_then_stuck [where u = "1023 - j"])
    show "unat (b_tx_head ?s1) < 1024" unfolding h1 by simp
    show "unat (b_tx_tail ?s1) = (unat (b_tx_head ?s1) + (1023 - j)) mod 1024" by (rule t1)
    show "1023 - j + length fs = 1023" using j len by simp
    show "\<not> txd_done (b_tx_ring ?s1 (unat (b_tx_head ?s1)))" if "fs = []"
      using that len by (intro free) simp
    show "\<not> txd_done (b_tx_ring ?s1 (unat (b_tx_head ?s1)))" if "1023 - j \<noteq> 0"
      using that by (intro free) simp
  qed
  with j rec len show ?thesis by blast
qed

lemma reclaim_restores_its_count:
  assumes tail: "unat (b_tx_tail f) < 1024" and full: "tx_ring_full f"
  shows "\<exists>j s1. j \<le> 1023 \<and> reclaim_tx_descriptors f = Some s1 \<and>
           s1 = f\<lparr>b_tx_head := of_nat ((unat (b_tx_head f) + j) mod 1024)\<rparr> \<and>
           (\<forall>gs g. length gs = j \<longrightarrow>
              (\<exists>s2. send_packets (gs @ [g]) s1 = Some (replicate j True @ [False], s2)))"
proof -
  from full have "(unat (b_tx_tail f) + 1) mod 1024 = unat (b_tx_head f)"
    by (simp add: tx_ring_full_iff)
  then have h: "unat (b_tx_head f) < 1024"
    by (metis mod_less_divisor zero_less_numeral)
  from reclaim_total [OF h tail] obtain j
    where run: "\<forall>i<j. txd_done (b_tx_ring f ((unat (b_tx_head f) + i) mod 1024)) \<and>
                    (unat (b_tx_head f) + i) mod 1024 \<noteq> unat (b_tx_tail f)"
      and stop: "(unat (b_tx_head f) + j) mod 1024 = unat (b_tx_tail f) \<or>
               \<not> txd_done (b_tx_ring f ((unat (b_tx_head f) + j) mod 1024))"
    by blast
  note cap = capacity_after_reclaim [OF tail full run stop]
  let ?s1 = "f\<lparr>b_tx_head := of_nat ((unat (b_tx_head f) + j) mod 1024)\<rparr>"
  from cap [of "replicate j (\<lambda>a. 0, 0)"] have "j \<le> 1023"
    and "reclaim_tx_descriptors f = Some ?s1"
    by simp_all
  moreover have "\<forall>gs g. length gs = j \<longrightarrow>
      (\<exists>s2. send_packets (gs @ [g]) ?s1 = Some (replicate j True @ [False], s2))"
    using cap by blast
  ultimately show ?thesis by blast
qed

lemma bnx_done_example_fields:
  "b_tx_head bnx_done_example = 0"
  "b_tx_tail bnx_done_example = 5"
  by (simp_all add: bnx_done_example_def hw_tx_done_def bnx_example_fields)

subsection \<open>The DD bit\<close>

lemma and_1_eq_0_iff: "(w AND 1 = 0) \<longleftrightarrow> \<not> bit (w :: 'a::len word) 0"
  by (simp add: and_one_eq bit_0 even_iff_mod_2_eq_zero)

lemma rxd_done_bit: "rxd_done d \<longleftrightarrow> bit (rxd_status d) 0"
  by (simp add: rxd_done_def DESC_STATUS_DD_def and_1_eq_0_iff bit_ucast_iff)

lemma txd_done_bit: "txd_done d \<longleftrightarrow> bit (txd_status d) 0"
  by (simp add: txd_done_def DESC_STATUS_DD_def and_1_eq_0_iff bit_ucast_iff)

lemma rx_dd_bit: "(w AND RX_DD_BIT = 0) \<longleftrightarrow> \<not> bit w 0"
  by (simp add: RX_DD_BIT_def and_1_eq_0_iff)

subsection \<open>The receive cursors\<close>

lemma unat_and_1023: "unat ((w::u32) AND 1023) = unat w mod 1024"
  by (simp add: mask_1023 unsigned_take_bit_eq take_bit_eq_mod unat_mod flip: take_bit_eq_mask)

lemma tail_written_1024: "((((h::u32) + 1) AND 1023) - 1) AND 1023 = h AND 1023"
proof -
  define m where "m = unat h mod 1024"
  have m: "m < 1024" by (simp add: m_def)
  let ?X = "(h + 1) AND 1023"
  have "unat (h + 1) mod 1024 = (unat h + 1) mod 2 ^ 32 mod 2 ^ 10"
    by (simp add: unat_word_ariths)
  also have "\<dots> = (unat h + 1) mod 2 ^ 10"
    by (rule mod_mod_cancel) simp
  also have "\<dots> = (m + 1) mod 1024"
    by (simp add: m_def mod_Suc_eq)
  finally have X: "unat ?X = (m + 1) mod 1024"
    by (simp add: unat_and_1023)
  have "unat ((?X - 1) AND 1023) = m"
  proof (cases "m = 1023")
    case True
    with X have "unat ?X = 0" by simp
    then have "?X = 0" by (simp add: unat_eq_0)
    then have "unat ((?X - 1) AND 1023) = unat ((- 1 :: u32) AND 1023)"
      by simp
    also have "\<dots> = 1023" by simp
    finally show ?thesis using True by simp
  next
    case False
    with m have "m + 1 < 1024" by simp
    with X have X': "unat ?X = m + 1" by simp
    then have "?X \<noteq> 0" by auto
    then have "unat (?X - 1) = unat ?X - 1" by (rule unat_minus_one)
    with X' have "unat (?X - 1) = m" by simp
    with m show ?thesis by (simp add: unat_and_1023)
  qed
  then show ?thesis
    by (simp add: word_unat_eq_iff unat_and_1023 m_def)
qed

lemma mask_511: "(511 :: u32) = mask 9"
  by (simp add: mask_eq_exp_minus_1)

lemma unat_next_512: "unat (((x::u32) + 1) AND 511) = (unat x + 1) mod 512"
proof -
  have "unat ((x + 1) AND mask 9) = unat (x + 1) mod 2 ^ 9"
    by (simp add: unsigned_take_bit_eq take_bit_eq_mod unat_mod flip: take_bit_eq_mask)
  also have "unat (x + 1) = (unat x + 1) mod 2 ^ 32"
    by (simp add: unat_word_ariths)
  also have "(unat x + 1) mod 2 ^ 32 mod 2 ^ 9 = (unat x + 1) mod 2 ^ 9"
    by (rule mod_mod_cancel) simp
  finally show ?thesis
    by (simp add: mask_511)
qed

lemma custom_rx_next:
  "(ucast ((ucast ((h::u32) + 1) :: u64) AND (RX_RING_SIZE - 1)) :: u32) = (h + 1) AND 511"
  apply (simp add: RX_RING_SIZE_def)
  apply (rule bit_word_eqI)
  apply (simp add: bit_simps)
  done

lemma custom_tx_next:
  "(ucast ((ucast ((h::u32) + 1) :: u64) AND (TX_RING_SIZE - 1)) :: u32) = (h + 1) AND 511"
  apply (simp add: TX_RING_SIZE_def)
  apply (rule bit_word_eqI)
  apply (simp add: bit_simps)
  done

subsection \<open>Receiving\<close>

lemma receive_packet_idle:
  assumes "\<not> bit (rxd_status (b_rx_ring s (unat (b_rx_head s)))) 0"
  shows "receive_packet s = (None, s)"
  using assms by (simp add: receive_packet_def rxd_done_bit)

lemma receive_packet_done:
  assumes "bit (rxd_status (b_rx_ring s (unat (b_rx_head s)))) 0"
  shows "receive_packet s =
     (Some (b_rx_buffers_ptr s + ucast (b_rx_head s * MAX_PACKET_SIZE),
            rxd_length (b_rx_ring s (unat (b_rx_head s)))),
      s\<lparr>b_bar0 := (b_bar0 s)(REG_RX_RING_TAIL := b_rx_head s AND 1023),
        b_rx_ring := (b_rx_ring s)
          (unat (b_rx_head s) := (b_rx_ring s (unat (b_rx_head s)))\<lparr>rxd_status := 0\<rparr>),
        b_rx_head := (b_rx_head s + 1) AND 1023,
        b_packets_received := b_packets_received s + 1\<rparr>)"
  using assms
  by (simp add: receive_packet_def rxd_done_bit Let_def write_reg_def BNX_RX_RING_SIZE_def
      tail_written_1024)

lemma CustomNICDriver_poll_rx_idle:
  assumes "\<not> bit (status_flags (c_rx_ring c (unat (c_rx_head c)))) 0"
  shows "CustomNICDriver_poll_rx c = (None, c)"
  using assms by (simp add: CustomNICDriver_poll_rx_def Let_def rx_dd_bit)

lemma CustomNICDriver_poll_rx_done:
  assumes "read_reg32 c RX_HEAD \<noteq> c_rx_head c"
    and "bit (status_flags (c_rx_ring c (unat (c_rx_head c)))) 0"
  shows "CustomNICDriver_poll_rx c =
     (Some (c_rx_buffers c (unat (c_rx_head c)), ucast (pkt_len (c_rx_ring c (unat (c_rx_head c))))),
      c\<lparr>c_bar0 := (c_bar0 c)(RX_TAIL := (c_rx_head c + 1) AND 511),
        c_rx_ring := (c_rx_ring c)
          (unat (c_rx_head c) := (c_rx_ring c (unat (c_rx_head c)))\<lparr>status_flags := 0\<rparr>),
        c_rx_head := (c_rx_head c + 1) AND 511\<rparr>)"
  using assms
  by (simp add: CustomNICDriver_poll_rx_def Let_def rx_dd_bit write_reg32_def custom_rx_next)

subsection \<open>The example states on the receive side\<close>

lemma bnx_example_rx_fields:
  "b_rx_ring bnx_example 0 = zero_RxDescriptor\<lparr>rxd_buffer_addr := 0x1000000\<rparr>"
  "b_rx_buffers_ptr bnx_example = 0x1000000"
  by (simp_all add: bnx_example_def BroadcomNetXtreme_initialized_def Let_def write_reg_def
      enable_rx_tx_def read_reg_def get_physical_addr_def)

lemma bnx_rx_example_fields:
  "b_rx_head (hw_rx_frame 0 n bnx_example) = 0"
  "b_rx_buffers_ptr (hw_rx_frame 0 n bnx_example) = 0x1000000"
  "rxd_length (b_rx_ring (hw_rx_frame 0 n bnx_example) 0) = n"
  "bit (rxd_status (b_rx_ring (hw_rx_frame 0 n bnx_example) 0)) 0"
  by (simp_all add: hw_rx_frame_def bnx_example_fields bnx_example_rx_fields DESC_STATUS_DD_def
      bit_simps)

lemma custom_example_fields:
  "c_rx_head custom_example = 0"
  "c_rx_buffers custom_example 0 = 0x1000000"
  "c_rx_ring custom_example 0 = zero_RXDescriptor\<lparr>rx_buffer_addr := 0x1000000\<rparr>"
  by (simp_all add: custom_example_def CustomNICDriver_initialized_def Let_def program_rx_ring_def
      program_tx_ring_def write_reg32_def)

lemma custom_rx_example_fields:
  "c_rx_head (hw_rx_deliver 0 n 1 custom_example) = 0"
  "read_reg32 (hw_rx_deliver 0 n 1 custom_example) RX_HEAD = 1"
  "c_rx_buffers (hw_rx_deliver 0 n 1 custom_example) 0 = 0x1000000"
  "pkt_len (c_rx_ring (hw_rx_deliver 0 n 1 custom_example) 0) = n"
  "bit (status_flags (c_rx_ring (hw_rx_deliver 0 n 1 custom_example) 0)) 0"
  by (simp_all add: hw_rx_deliver_def custom_example_fields read_reg32_def RX_DD_BIT_def bit_simps)

lemma unat_u16_bound: "unat (n :: u16) \<le> 65535"
proof -
  have "unat n < 2 ^ 16"
    using unsigned_less [of n] by simp
  then show ?thesis by simp
qed

lemma unat_ucast_16_64: "unat (ucast (w :: u16) :: u64) = unat w"
proof -
  have "unat w < 2 ^ 64"
    using unat_u16_bound [of w] by simp
  then have "take_bit 64 (unat w) = unat w"
    by (rule take_bit_nat_eq_self)
  then show ?thesis
    by (simp add: unsigned_ucast_eq)
qed

subsection \<open>The counters along a run\<close>

lemma receive_packet_counted:
  assumes "tx_cursors_in_ring s"
  shows "tx_cursors_in_ring (snd (receive_packet s)) \<and> counted s (snd (receive_packet s))"
proof (cases "bit (rxd_status (b_rx_ring s (unat (b_rx_head s)))) 0")
  case True
  then show ?thesis
    using assms by (simp add: receive_packet_done tx_cursors_in_ring_def counted_def)
next
  case False
  then show ?thesis
    using assms by (simp add: receive_packet_idle counted_def)
qed

lemma enqueue_tx_counted:
  assumes "tx_cursors_in_ring s"
  shows "tx_cursors_in_ring (enqueue_tx dat n ((b_tx_tail s + 1) AND (BNX_TX_RING_SIZE - 1)) s) \<and>
         counted s (enqueue_tx dat n ((b_tx_tail s + 1) AND (BNX_TX_RING_SIZE - 1)) s)"
  using assms
  by (simp add: tx_cursors_in_ring_def counted_def enqueue_tx_fields bnx_tx_next)

lemma reclaim_counted:
  assumes "tx_cursors_in_ring s"
  shows "\<exists>s1. reclaim_tx_descriptors s = Some s1 \<and> tx_cursors_in_ring s1 \<and> counted s s1 \<and>
              b_packets_received s1 = b_packets_received s \<and> b_packets_sent s1 = b_packets_sent s"
proof -
  from assms have h: "unat (b_tx_head s) < 1024" and t: "unat (b_tx_tail s) < 1024"
    by (simp_all add: tx_cursors_in_ring_def)
  from reclaim_total [OF h t] obtain j
    where "reclaim_tx_descriptors s =
        Some (s\<lparr>b_tx_head := of_nat ((unat (b_tx_head s) + j) mod 1024)\<rparr>)"
    by blast
  moreover have "unat (of_nat ((unat (b_tx_head s) + j) mod 1024) :: u32) < 1024"
    by (simp add: u32_unat_of_nat)
  ultimately show ?thesis
    using t by (simp add: tx_cursors_in_ring_def counted_def)
qed

lemma send_packet_counted:
  assumes "tx_cursors_in_ring s"
  shows "\<exists>r s'. send_packet dat n s = Some (r, s') \<and> tx_cursors_in_ring s' \<and> counted s s'"
proof (cases "tx_ring_full s")
  case False
  with enqueue_tx_counted [OF assms, of dat n] show ?thesis
    by (auto simp add: send_packet_room)
next
  case True
  from reclaim_counted [OF assms] obtain s1
    where rec: "reclaim_tx_descriptors s = Some s1" and in1: "tx_cursors_in_ring s1"
      and c1: "counted s s1"
      and same: "b_packets_received s1 = b_packets_received s" "b_packets_sent s1 = b_packets_sent s"
    by blast
  show ?thesis
  proof (cases "tx_ring_full s1")
    case full1: True
    with True rec in1 c1 show ?thesis
      by (auto simp add: send_packet_full)
  next
    case False
    from enqueue_tx_counted [OF in1, of dat n] same
    have "tx_cursors_in_ring (enqueue_tx dat n ((b_tx_tail s1 + 1) AND (BNX_TX_RING_SIZE - 1)) s1) \<and>
         counted s (enqueue_tx dat n ((b_tx_tail s1 + 1) AND (BNX_TX_RING_SIZE - 1)) s1)"
      by (simp add: counted_def)
    with True False rec show ?thesis
      by (auto simp add: send_packet_full)
  qed
qed

lemma bnx_step_counted:
  assumes "tx_cursors_in_ring s"
  shows "\<exists>s'. bnx_step e s = Some s' \<and> tx_cursors_in_ring s' \<and> counted s s'"
proof (cases e)
  case Receive
  with receive_packet_counted [OF assms] show ?thesis by simp
next
  case (Send dat n)
  with send_packet_counted [OF assms, of dat n] show ?thesis by auto
next
  case Reclaim
  with reclaim_counted [OF assms] show ?thesis by auto
next
  case GetPacketsReceived
  with assms show ?thesis by (simp add: get_packets_received_def counted_def)
next
  case GetPacketsSent
  with assms show ?thesis by (simp add: get_packets_sent_def counted_def)
next
  case (HwTxDone i)
  with assms show ?thesis by (simp add: hw_tx_done_def counted_def tx_cursors_in_ring_def)
next
  case (HwRxFrame i n)
  with assms show ?thesis by (simp add: hw_rx_frame_def counted_def tx_cursors_in_ring_def)
qed

lemma bnx_run_counted:
  assumes "tx_cursors_in_ring s"
  shows "\<exists>s' a b. bnx_run es s = Some s' \<and> tx_cursors_in_ring s' \<and>
           a \<le> length es \<and> b \<le> length es \<and>
           b_packets_received s' = b_packets_received s + of_nat a \<and>
           b_packets_sent s' = b_packets_sent s + of_nat b"
  using assms
proof (induction es arbitrary: s)
  case Nil
  then show ?case by simp
next
  case (Cons e es)
  from bnx_step_counted [OF Cons.prems, of e] obtain s1
    where step: "bnx_step e s = Some s1" and in1: "tx_cursors_in_ring s1" and c: "counted s s1"
    by blast
  from Cons.IH [OF in1] obtain s' a b
    where run: "bnx_run es s1 = Some s'" and in': "tx_cursors_in_ring s'"
      and a: "a \<le> length es" and b: "b \<le> length es"
      and ra: "b_packets_received s' = b_packets_received s1 + of_nat a"
      and sb: "b_packets_sent s' = b_packets_sent s1 + of_nat b"
    by blast
  define a1 :: nat where "a1 = (if b_packets_received s1 = b_packets_received s then 0 else 1)"
  define b1 :: nat where "b1 = (if b_packets_sent s1 = b_packets_sent s then 0 else 1)"
  have a1: "a1 \<le> 1" and b1: "b1 \<le> 1"
    by (simp_all add: a1_def b1_def)
  from c have r1: "b_packets_received s1 = b_packets_received s + of_nat a1"
    and s1: "b_packets_sent s1 = b_packets_sent s + of_nat b1"
    by (auto simp add: counted_def a1_def b1_def)
  have "bnx_run (e # es) s = Some s'"
    by (simp add: step run)
  moreover have "a1 + a \<le> length (e # es)" "b1 + b \<le> length (e # es)"
    using a b a1 b1 by simp_all
  moreover have "b_packets_received s' = b_packets_received s + of_nat (a1 + a)"
    by (simp add: ra r1)
  moreover have "b_packets_sent s' = b_packets_sent s + of_nat (b1 + b)"
    by (simp add: sb s1)
  ultimately show ?case using in' by blast
qed

lemma unat_add_small:
  assumes "unat (x :: u64) + a < 2 ^ 64"
  shows "unat (x + of_nat a) = unat x + a"
proof -
  from assms have "a < 2 ^ 64" by simp
  then have a: "unat (of_nat a :: u64) = a"
    by (simp add: unat_of_nat)
  with assms have "unat x + unat (of_nat a :: u64) < 2 ^ LENGTH(64)"
    by simp
  then have "unat (x + of_nat a) = unat x + unat (of_nat a :: u64)"
    by (simp only: unat_add_lem)
  with a show ?thesis by simp
qed


section \<open>The claims\<close>

subsection \<open>C1: Frames longer than a slot buffer\<close>

text \<open>
  C1.  The claim is that a frame longer than the per-slot buffer is rejected with the ring
  left as it was.  \<open>CustomNICDriver::submit_tx\<close> does so (lemma
  \<open>CustomNICDriver_submit_tx_rejects_oversize\<close>).  \<open>BroadcomNetXtreme::send_packet\<close> has
  no length test: on the initialised object, a frame of 9217 bytes (\<open>MAX_PACKET_SIZE\<close> is
  9216) is accepted, the descriptor of slot 0 is written with that length, the tail moves
  to 1, and the byte at offset 9216 of the buffer region, the first byte of slot 1, is
  overwritten by the copy.
\<close>

theorem C1_send_packet_accepts_oversize:
  "unat MAX_PACKET_SIZE < unat (9217 :: u16) \<and>
   send_packet (\<lambda>a. 0xAA) 9217 bnx_example =
     Some (True, enqueue_tx (\<lambda>a. 0xAA) 9217 1 bnx_example) \<and>
   b_tx_tail (enqueue_tx (\<lambda>a. 0xAA) 9217 1 bnx_example) = 1 \<and>
   txd_cmd_type_len (b_tx_ring (enqueue_tx (\<lambda>a. 0xAA) 9217 1 bnx_example) 0) =
     9217 OR DESC_CMD_EOP OR DESC_CMD_IFCS \<and>
   b_tx_buffers bnx_example 9216 = 0 \<and>
   b_tx_buffers (enqueue_tx (\<lambda>a. 0xAA) 9217 1 bnx_example) 9216 = 0xAA"
proof -
  have "\<not> tx_ring_full bnx_example"
    by (simp add: tx_ring_full_def bnx_example_fields BNX_TX_RING_SIZE_def)
  then have "send_packet (\<lambda>a. 0xAA) 9217 bnx_example =
      Some (True, enqueue_tx (\<lambda>a. 0xAA) 9217 1 bnx_example)"
    by (simp add: send_packet_room bnx_example_fields BNX_TX_RING_SIZE_def)
  moreover have "b_tx_buffers (enqueue_tx (\<lambda>a. 0xAA) 9217 1 bnx_example) 9216 = 0xAA"
    by (simp add: enqueue_tx_def Let_def write_reg_def bnx_example_fields memcpy_at_def)
  moreover have "txd_cmd_type_len (b_tx_ring (enqueue_tx (\<lambda>a. 0xAA) 9217 1 bnx_example) 0) =
     9217 OR DESC_CMD_EOP OR DESC_CMD_IFCS"
    by (simp add: enqueue_tx_ring bnx_example_fields)
  ultimately show ?thesis
    by (simp add: enqueue_tx_fields bnx_example_fields MAX_PACKET_SIZE_def)
qed


subsection \<open>C2: The full TX ring\<close>

text \<open>
  C2, as amended for \<open>BroadcomNetXtreme::send_packet\<close> (N = 1024).  In a state \<open>s\<close> whose
  cursors lie in the ring, the ring-full test of \<open>send_packet\<close> holds exactly when
  \<open>(tail + 1) mod N = head\<close>.  When it does not hold the frame is queued.  When it holds,
  the reclaim pass returns; if the ring is still full afterwards, nothing at all has changed
  and \<open>send_packet\<close> returns \<open>false\<close>; otherwise the frame is queued in the reclaimed state.
  From an empty ring \<open>e\<close> (tail equal to head), with no completion in between,
  1023 = N - 1 consecutive calls with frames of valid size return \<open>true\<close> and the next one
  returns \<open>false\<close>.  \<open>CustomNICDriver::submit_tx\<close> has no such test: it returns \<open>true\<close>
  for every frame of at most \<open>PACKET_BUFFER_SIZE\<close> bytes.
\<close>

theorem C2_broadcom_tx_ring_full:
  assumes s_head: "unat (b_tx_head s) < 1024" and s_tail: "unat (b_tx_tail s) < 1024"
    and e_head: "unat (b_tx_head e) < 1024" and empty: "b_tx_tail e = b_tx_head e"
    and frames: "length fs = 1023" "\<forall>x\<in>set (fs @ [g]). unat (snd x) \<le> unat MAX_PACKET_SIZE"
  shows "(tx_ring_full s \<longleftrightarrow>
            (unat (b_tx_tail s) + 1) mod unat BNX_TX_RING_SIZE = unat (b_tx_head s)) \<and>
         (\<not> tx_ring_full s \<longrightarrow>
            send_packet dat n s =
              Some (True, enqueue_tx dat n ((b_tx_tail s + 1) AND (BNX_TX_RING_SIZE - 1)) s)) \<and>
         (tx_ring_full s \<longrightarrow>
            (\<exists>s1. reclaim_tx_descriptors s = Some s1 \<and>
               (if tx_ring_full s1 then s1 = s \<and> send_packet dat n s = Some (False, s)
                else send_packet dat n s =
                       Some (True, enqueue_tx dat n ((b_tx_tail s1 + 1) AND (BNX_TX_RING_SIZE - 1)) s1)))) \<and>
         (\<exists>e'. send_packets (fs @ [g]) e = Some (replicate 1023 True @ [False], e')) \<and>
         (packet_len \<le> PACKET_BUFFER_SIZE \<longrightarrow>
            fst (CustomNICDriver_submit_tx packet_data packet_len c))"
proof (intro conjI impI)
  show "tx_ring_full s \<longleftrightarrow>
      (unat (b_tx_tail s) + 1) mod unat BNX_TX_RING_SIZE = unat (b_tx_head s)"
    by (simp add: tx_ring_full_iff BNX_TX_RING_SIZE_def)
next
  assume "\<not> tx_ring_full s"
  then show "send_packet dat n s =
      Some (True, enqueue_tx dat n ((b_tx_tail s + 1) AND (BNX_TX_RING_SIZE - 1)) s)"
    by (rule send_packet_room)
next
  assume full: "tx_ring_full s"
  from reclaim_total [OF s_head s_tail] obtain s1 where rec: "reclaim_tx_descriptors s = Some s1"
    by blast
  from reclaim_head_only [OF rec] obtain h where s1: "s1 = s\<lparr>b_tx_head := h\<rparr>" ..
  have same: "s1 = s" if "tx_ring_full s1"
  proof -
    from that full have "b_tx_head s1 = b_tx_head s"
      by (simp add: tx_ring_full_def s1)
    then show ?thesis by (simp add: s1)
  qed
  from send_packet_full [OF full, of dat n] rec same
  have "if tx_ring_full s1 then s1 = s \<and> send_packet dat n s = Some (False, s)
        else send_packet dat n s =
               Some (True, enqueue_tx dat n ((b_tx_tail s1 + 1) AND (BNX_TX_RING_SIZE - 1)) s1)"
    by (cases "tx_ring_full s1") simp_all
  with rec show "\<exists>s1. reclaim_tx_descriptors s = Some s1 \<and>
               (if tx_ring_full s1 then s1 = s \<and> send_packet dat n s = Some (False, s)
                else send_packet dat n s =
                       Some (True, enqueue_tx dat n ((b_tx_tail s1 + 1) AND (BNX_TX_RING_SIZE - 1)) s1))"
    by blast
next
  have tail: "unat (b_tx_tail e) = (unat (b_tx_head e) + 0) mod 1024"
    using e_head by (simp add: empty)
  from frames(1) have "fs \<noteq> []" by auto
  from fill_then_stuck [OF e_head tail, of fs g] frames(1) this
  show "\<exists>e'. send_packets (fs @ [g]) e = Some (replicate 1023 True @ [False], e')"
    by auto
next
  assume "packet_len \<le> PACKET_BUFFER_SIZE"
  then show "fst (CustomNICDriver_submit_tx packet_data packet_len c)"
    by (rule CustomNICDriver_submit_tx_accepts)
qed

theorem C2_witness:
  "tx_ring_full bnx_full_example \<and>
   (unat (b_tx_tail bnx_full_example) + 1) mod unat BNX_TX_RING_SIZE =
     unat (b_tx_head bnx_full_example) \<and>
   reclaim_tx_descriptors bnx_full_example = Some bnx_full_example \<and>
   send_packet (fst frame64) (snd frame64) bnx_full_example = Some (False, bnx_full_example) \<and>
   b_tx_tail bnx_example = b_tx_head bnx_example \<and>
   (\<exists>e'. send_packets (replicate 1023 frame64 @ [frame64]) bnx_example =
           Some (replicate 1023 True @ [False], e')) \<and>
   fst (CustomNICDriver_submit_tx (fst custom_frame64) (snd custom_frame64) custom_example)"
proof -
  have h1: "unat (b_tx_head bnx_full_example) < 1024" "unat (b_tx_tail bnx_full_example) < 1024"
    by (simp_all add: bnx_full_example_fields)
  have h2: "tx_ring_full bnx_full_example"
    by (simp add: tx_ring_full_def bnx_full_example_fields BNX_TX_RING_SIZE_def)
  have h3: "unat (b_tx_head bnx_example) < 1024" "b_tx_tail bnx_example = b_tx_head bnx_example"
    by (simp_all add: bnx_example_fields)
  have h4: "length (replicate 1023 frame64) = 1023"
    "\<forall>x\<in>set (replicate 1023 frame64 @ [frame64]). unat (snd x) \<le> unat MAX_PACKET_SIZE"
    by (simp_all add: frame64_def MAX_PACKET_SIZE_def)
  have h5: "snd custom_frame64 \<le> PACKET_BUFFER_SIZE"
    by (simp add: custom_frame64_def PACKET_BUFFER_SIZE_def)
  note inst = C2_broadcom_tx_ring_full [OF h1 h3 h4,
      of "fst frame64" "snd frame64" "snd custom_frame64" "fst custom_frame64" custom_example]
  from inst [THEN conjunct1] h2
  have m: "(unat (b_tx_tail bnx_full_example) + 1) mod unat BNX_TX_RING_SIZE =
     unat (b_tx_head bnx_full_example)"
    by (rule iffD1)
  have rec: "reclaim_tx_descriptors bnx_full_example = Some bnx_full_example"
    by (subst reclaim_tx_descriptors.simps) (simp add: bnx_full_example_fields txd_done_zero)
  from inst [THEN conjunct2, THEN conjunct2, THEN conjunct1, rule_format, OF h2] rec h2
  have stuck: "send_packet (fst frame64) (snd frame64) bnx_full_example = Some (False, bnx_full_example)"
    by simp
  from inst [THEN conjunct2, THEN conjunct2, THEN conjunct2, THEN conjunct1]
    inst [THEN conjunct2, THEN conjunct2, THEN conjunct2, THEN conjunct2, rule_format, OF h5]
    h2 m rec stuck h3(2)
  show ?thesis by (intro conjI)
qed

text \<open>
  C2 as stated also covers \<open>CustomNICDriver::submit_tx\<close>, which has no head cursor and no
  ring-full test.  From the initialised object (tail 0, the device's TX head register 0,
  no completions) 512 = N consecutive calls with 64-byte frames all return \<open>true\<close>.
\<close>

theorem C2_counterexample:
  "unat TX_RING_SIZE = 512 \<and>
   c_tx_tail custom_example = 0 \<and> read_reg32 custom_example TX_HEAD = 0 \<and>
   fst (CustomNICDriver_submit_all (replicate 512 custom_frame64) custom_example) =
     replicate 512 True"
proof -
  have "\<forall>x\<in>set (replicate 512 custom_frame64). snd x \<le> PACKET_BUFFER_SIZE"
    by (simp add: custom_frame64_def PACKET_BUFFER_SIZE_def)
  from CustomNICDriver_submit_all_accepts [OF this, of custom_example]
  have "fst (CustomNICDriver_submit_all (replicate 512 custom_frame64) custom_example) =
     replicate 512 True"
    by simp
  moreover have "c_tx_tail custom_example = 0" "read_reg32 custom_example TX_HEAD = 0"
    by (simp_all add: custom_example_def CustomNICDriver_initialized_def Let_def program_rx_ring_def
        program_tx_ring_def write_reg32_def read_reg32_def TX_HEAD_def TX_TAIL_def)
  ultimately show ?thesis
    by (simp add: TX_RING_SIZE_def)
qed


subsection \<open>C3: The length handed to the caller\<close>

text \<open>
  C3, as amended.  Neither receive operation looks at the value of the descriptor's length
  field.  Whenever DD is set at the head (for \<open>CustomNICDriver::poll_rx\<close>: and the device's
  RX head register differs from \<open>rx_head_\<close>), a packet is returned whose length is the
  16-bit field as it stands; and whenever a packet is returned, its length is that field,
  so the bound on what the caller gets is 65535, the range of the field, not the capacity
  of the buffer.  A length of 0 is returned like any other.
\<close>

theorem C3_receive_returns_descriptor_length:
  "(bit (rxd_status (b_rx_ring s (unat (b_rx_head s)))) 0 \<longrightarrow>
      (\<exists>p. fst (receive_packet s) = Some (p, rxd_length (b_rx_ring s (unat (b_rx_head s)))))) \<and>
   (receive_packet s = (Some (p, n), s') \<longrightarrow>
      n = rxd_length (b_rx_ring s (unat (b_rx_head s))) \<and> unat n \<le> 65535) \<and>
   (read_reg32 c RX_HEAD \<noteq> c_rx_head c \<and> bit (status_flags (c_rx_ring c (unat (c_rx_head c)))) 0 \<longrightarrow>
      (\<exists>q. fst (CustomNICDriver_poll_rx c) =
             Some (q, ucast (pkt_len (c_rx_ring c (unat (c_rx_head c))))))) \<and>
   (CustomNICDriver_poll_rx c = (Some (q, m), c') \<longrightarrow>
      m = ucast (pkt_len (c_rx_ring c (unat (c_rx_head c)))) \<and> unat m \<le> 65535)"
proof (intro conjI impI)
  assume "bit (rxd_status (b_rx_ring s (unat (b_rx_head s)))) 0"
  then show "\<exists>p. fst (receive_packet s) = Some (p, rxd_length (b_rx_ring s (unat (b_rx_head s))))"
    by (simp add: receive_packet_done)
next
  assume r: "receive_packet s = (Some (p, n), s')"
  then show "n = rxd_length (b_rx_ring s (unat (b_rx_head s)))"
    by (auto simp add: receive_packet_def Let_def split: if_splits)
  show "unat n \<le> 65535"
    by (rule unat_u16_bound)
next
  assume "read_reg32 c RX_HEAD \<noteq> c_rx_head c \<and>
      bit (status_flags (c_rx_ring c (unat (c_rx_head c)))) 0"
  then show "\<exists>q. fst (CustomNICDriver_poll_rx c) =
      Some (q, ucast (pkt_len (c_rx_ring c (unat (c_rx_head c)))))"
    by (simp add: CustomNICDriver_poll_rx_done)
next
  assume r: "CustomNICDriver_poll_rx c = (Some (q, m), c')"
  then have m: "m = ucast (pkt_len (c_rx_ring c (unat (c_rx_head c))))"
    by (auto simp add: CustomNICDriver_poll_rx_def Let_def split: if_splits)
  then show "m = ucast (pkt_len (c_rx_ring c (unat (c_rx_head c))))" .
  show "unat m \<le> 65535"
    unfolding m unat_ucast_16_64 by (rule unat_u16_bound)
qed

theorem C3_witness:
  "fst (receive_packet bnx_rx_example) = Some (0x1000000, 64) \<and>
   fst (CustomNICDriver_poll_rx custom_rx_example) = Some (0x1000000, 64)"
proof -
  have h1: "bit (rxd_status (b_rx_ring bnx_rx_example (unat (b_rx_head bnx_rx_example)))) 0"
    by (simp add: bnx_rx_example_def bnx_rx_example_fields)
  have h2: "read_reg32 custom_rx_example RX_HEAD \<noteq> c_rx_head custom_rx_example \<and>
      bit (status_flags (c_rx_ring custom_rx_example (unat (c_rx_head custom_rx_example)))) 0"
    by (simp add: custom_rx_example_def custom_rx_example_fields)
  note inst = C3_receive_returns_descriptor_length [of bnx_rx_example _ _ _ custom_rx_example]
  from inst [THEN conjunct1, rule_format, OF h1]
  obtain p where p: "fst (receive_packet bnx_rx_example) = Some (p, 64)"
    by (auto simp add: bnx_rx_example_def bnx_rx_example_fields)
  from inst [THEN conjunct2, THEN conjunct2, THEN conjunct1, rule_format, OF h2]
  obtain q where q: "fst (CustomNICDriver_poll_rx custom_rx_example) = Some (q, 64)"
    by (auto simp add: custom_rx_example_def custom_rx_example_fields)
  from p h1 have "p = 0x1000000"
    by (simp add: receive_packet_done bnx_rx_example_def bnx_rx_example_fields)
  moreover from q h2 have "q = 0x1000000"
    by (simp add: CustomNICDriver_poll_rx_done custom_rx_example_def custom_rx_example_fields)
  ultimately show ?thesis using p q by simp
qed

text \<open>
  C3 as stated fails in both drivers: with a descriptor length of 65535 the returned length
  is 65535, above \<open>MAX_PACKET_SIZE\<close> = 9216 and above \<open>PACKET_BUFFER_SIZE\<close> = 2048.
\<close>

theorem C3_counterexample:
  "fst (receive_packet bnx_rx_oversize_example) = Some (0x1000000, 0xFFFF) \<and>
   unat MAX_PACKET_SIZE < unat (0xFFFF :: u16) \<and>
   fst (CustomNICDriver_poll_rx custom_rx_oversize_example) = Some (0x1000000, 0xFFFF) \<and>
   PACKET_BUFFER_SIZE < 0xFFFF"
proof -
  have h1: "bit (rxd_status (b_rx_ring bnx_rx_oversize_example (unat (b_rx_head bnx_rx_oversize_example)))) 0"
    by (simp add: bnx_rx_oversize_example_def bnx_rx_example_fields)
  have h2: "read_reg32 custom_rx_oversize_example RX_HEAD \<noteq> c_rx_head custom_rx_oversize_example"
    "bit (status_flags (c_rx_ring custom_rx_oversize_example (unat (c_rx_head custom_rx_oversize_example)))) 0"
    by (simp_all add: custom_rx_oversize_example_def custom_rx_example_fields)
  have "fst (receive_packet bnx_rx_oversize_example) = Some (0x1000000, 0xFFFF)"
    using h1 by (simp add: receive_packet_done bnx_rx_oversize_example_def bnx_rx_example_fields)
  moreover have "fst (CustomNICDriver_poll_rx custom_rx_oversize_example) = Some (0x1000000, 0xFFFF)"
    using h2 by (simp add: CustomNICDriver_poll_rx_done custom_rx_oversize_example_def
        custom_rx_example_fields)
  ultimately show ?thesis
    by (simp add: MAX_PACKET_SIZE_def PACKET_BUFFER_SIZE_def)
qed


subsection \<open>C4: Receiving from the head slot\<close>

text \<open>
  C4, as amended.  When DD is set at the head, \<open>BroadcomNetXtreme::receive_packet\<close> returns
  the address of the slot's buffer and the descriptor's length, clears the descriptor's
  status, moves \<open>rx_head_\<close> to \<open>(head + 1) mod 1024\<close>, counts the packet, and writes to the RX
  tail register the value \<open>(new head - 1) mod 1024\<close>, which is the old head modulo 1024:
  the index of the slot just handed back, not the new head.
  \<open>CustomNICDriver::poll_rx\<close>, when in addition the device's RX head register differs from
  \<open>rx_head_\<close>, returns the slot's buffer pointer and the length, clears \<open>status_flags\<close>,
  moves \<open>rx_head_\<close> to \<open>(head + 1) mod 512\<close> and writes that new head to the RX tail
  register.  Nothing else changes in either driver.
\<close>

theorem C4_receive_consumes_head:
  "(bit (rxd_status (b_rx_ring s (unat (b_rx_head s)))) 0 \<longrightarrow>
      receive_packet s =
        (Some (b_rx_buffers_ptr s + ucast (b_rx_head s * MAX_PACKET_SIZE),
               rxd_length (b_rx_ring s (unat (b_rx_head s)))),
         s\<lparr>b_bar0 := (b_bar0 s)(REG_RX_RING_TAIL := b_rx_head s AND 1023),
           b_rx_ring := (b_rx_ring s)
             (unat (b_rx_head s) := (b_rx_ring s (unat (b_rx_head s)))\<lparr>rxd_status := 0\<rparr>),
           b_rx_head := (b_rx_head s + 1) AND 1023,
           b_packets_received := b_packets_received s + 1\<rparr>)) \<and>
   unat ((b_rx_head s + 1) AND 1023) = (unat (b_rx_head s) + 1) mod 1024 \<and>
   unat (b_rx_head s AND 1023) = unat (b_rx_head s) mod 1024 \<and>
   b_rx_head s AND 1023 = (((b_rx_head s + 1) AND 1023) - 1) AND 1023 \<and>
   (read_reg32 c RX_HEAD \<noteq> c_rx_head c \<and> bit (status_flags (c_rx_ring c (unat (c_rx_head c)))) 0 \<longrightarrow>
      CustomNICDriver_poll_rx c =
        (Some (c_rx_buffers c (unat (c_rx_head c)),
               ucast (pkt_len (c_rx_ring c (unat (c_rx_head c))))),
         c\<lparr>c_bar0 := (c_bar0 c)(RX_TAIL := (c_rx_head c + 1) AND 511),
           c_rx_ring := (c_rx_ring c)
             (unat (c_rx_head c) := (c_rx_ring c (unat (c_rx_head c)))\<lparr>status_flags := 0\<rparr>),
           c_rx_head := (c_rx_head c + 1) AND 511\<rparr>)) \<and>
   unat ((c_rx_head c + 1) AND 511) = (unat (c_rx_head c) + 1) mod 512"
proof (intro conjI impI)
  assume "bit (rxd_status (b_rx_ring s (unat (b_rx_head s)))) 0"
  then show "receive_packet s =
        (Some (b_rx_buffers_ptr s + ucast (b_rx_head s * MAX_PACKET_SIZE),
               rxd_length (b_rx_ring s (unat (b_rx_head s)))),
         s\<lparr>b_bar0 := (b_bar0 s)(REG_RX_RING_TAIL := b_rx_head s AND 1023),
           b_rx_ring := (b_rx_ring s)
             (unat (b_rx_head s) := (b_rx_ring s (unat (b_rx_head s)))\<lparr>rxd_status := 0\<rparr>),
           b_rx_head := (b_rx_head s + 1) AND 1023,
           b_packets_received := b_packets_received s + 1\<rparr>)"
    by (rule receive_packet_done)
next
  show "unat ((b_rx_head s + 1) AND 1023) = (unat (b_rx_head s) + 1) mod 1024"
    by (rule unat_next_1024)
  show "unat (b_rx_head s AND 1023) = unat (b_rx_head s) mod 1024"
    by (rule unat_and_1023)
  show "b_rx_head s AND 1023 = (((b_rx_head s + 1) AND 1023) - 1) AND 1023"
    by (rule tail_written_1024 [symmetric])
  show "unat ((c_rx_head c + 1) AND 511) = (unat (c_rx_head c) + 1) mod 512"
    by (rule unat_next_512)
next
  assume "read_reg32 c RX_HEAD \<noteq> c_rx_head c \<and>
      bit (status_flags (c_rx_ring c (unat (c_rx_head c)))) 0"
  then show "CustomNICDriver_poll_rx c =
        (Some (c_rx_buffers c (unat (c_rx_head c)),
               ucast (pkt_len (c_rx_ring c (unat (c_rx_head c))))),
         c\<lparr>c_bar0 := (c_bar0 c)(RX_TAIL := (c_rx_head c + 1) AND 511),
           c_rx_ring := (c_rx_ring c)
             (unat (c_rx_head c) := (c_rx_ring c (unat (c_rx_head c)))\<lparr>status_flags := 0\<rparr>),
           c_rx_head := (c_rx_head c + 1) AND 511\<rparr>)"
    by (intro CustomNICDriver_poll_rx_done) simp_all
qed

theorem C4_witness:
  "fst (receive_packet bnx_rx_example) = Some (0x1000000, 64) \<and>
   b_rx_head (snd (receive_packet bnx_rx_example)) = 1 \<and>
   b_bar0 (snd (receive_packet bnx_rx_example)) REG_RX_RING_TAIL = 0 \<and>
   \<not> rxd_done (b_rx_ring (snd (receive_packet bnx_rx_example)) 0) \<and>
   fst (CustomNICDriver_poll_rx custom_rx_example) = Some (0x1000000, 64) \<and>
   c_rx_head (snd (CustomNICDriver_poll_rx custom_rx_example)) = 1 \<and>
   c_bar0 (snd (CustomNICDriver_poll_rx custom_rx_example)) RX_TAIL = 1"
proof -
  have h1: "bit (rxd_status (b_rx_ring bnx_rx_example (unat (b_rx_head bnx_rx_example)))) 0"
    by (simp add: bnx_rx_example_def bnx_rx_example_fields)
  have h2: "read_reg32 custom_rx_example RX_HEAD \<noteq> c_rx_head custom_rx_example \<and>
      bit (status_flags (c_rx_ring custom_rx_example (unat (c_rx_head custom_rx_example)))) 0"
    by (simp add: custom_rx_example_def custom_rx_example_fields)
  note inst = C4_receive_consumes_head [of bnx_rx_example custom_rx_example]
  note b = inst [THEN conjunct1, rule_format, OF h1]
  note c = inst [THEN conjunct2, THEN conjunct2, THEN conjunct2, THEN conjunct2, THEN conjunct1,
      rule_format, OF h2]
  show ?thesis
    unfolding b c
    by (simp add: bnx_rx_example_def bnx_rx_example_fields custom_rx_example_def
        custom_rx_example_fields rxd_done_bit)
qed

text \<open>
  C4 as stated fails for \<open>BroadcomNetXtreme::receive_packet\<close>: after receiving from slot 0
  the head is 1 and the RX tail register holds 0.
\<close>

theorem C4_counterexample:
  "b_rx_head (snd (receive_packet bnx_rx_example)) = 1 \<and>
   b_bar0 (snd (receive_packet bnx_rx_example)) REG_RX_RING_TAIL = 0 \<and>
   b_bar0 (snd (receive_packet bnx_rx_example)) REG_RX_RING_TAIL \<noteq>
     b_rx_head (snd (receive_packet bnx_rx_example))"
proof -
  have "bit (rxd_status (b_rx_ring bnx_rx_example (unat (b_rx_head bnx_rx_example)))) 0"
    by (simp add: bnx_rx_example_def bnx_rx_example_fields)
  then show ?thesis
    by (simp add: receive_packet_done bnx_rx_example_def bnx_rx_example_fields)
qed


subsection \<open>C5: Reclaiming completed TX descriptors\<close>

text \<open>
  C5.  In a state \<open>s\<close> whose cursors lie in the ring, \<open>reclaim_tx_descriptors\<close> returns,
  and the state it returns is \<open>s\<close> with only \<open>tx_head_\<close> changed, moved forward by some
  \<open>j\<close> slots (modulo 1024) such that the \<open>j\<close> descriptors passed over all had DD set and
  none of them was at the tail, and the slot reached is the tail or has DD clear.  On a
  full ring \<open>f\<close>, whatever DD bits the device has set and in whatever order, the reclaim
  moves the head by some \<open>j\<close> and then exactly \<open>j\<close> further calls of \<open>send_packet\<close> succeed: of \<open>j + 1\<close> calls the
  first \<open>j\<close> return \<open>true\<close> and the last returns \<open>false\<close>.  When the 1023 pending
  descriptors of \<open>f\<close> had DD clear and the device has completed the \<open>k\<close> oldest of them
  (\<open>hw_tx_done_oldest\<close>, completions arriving in ring order), that number is \<open>k\<close>: the
  reclaim moves the head by exactly \<open>k\<close>, and of \<open>k + 1\<close> further calls with frames of valid
  size the first \<open>k\<close> return \<open>true\<close> and the last returns \<open>false\<close>.
\<close>

theorem C5_reclaim_tx_descriptors:
  assumes s_head: "unat (b_tx_head s) < 1024" and s_tail: "unat (b_tx_tail s) < 1024"
    and f_tail: "unat (b_tx_tail f) < 1024" and full: "tx_ring_full f"
    and pending: "\<forall>i<1023. \<not> txd_done (b_tx_ring f ((unat (b_tx_head f) + i) mod 1024))"
    and k: "k \<le> 1023"
    and frames: "length fs = k" "\<forall>x\<in>set (fs @ [g]). unat (snd x) \<le> unat MAX_PACKET_SIZE"
  shows "(\<exists>j. reclaim_tx_descriptors s =
               Some (s\<lparr>b_tx_head := of_nat ((unat (b_tx_head s) + j) mod 1024)\<rparr>) \<and>
             (\<forall>i<j. txd_done (b_tx_ring s ((unat (b_tx_head s) + i) mod 1024)) \<and>
                    (unat (b_tx_head s) + i) mod 1024 \<noteq> unat (b_tx_tail s)) \<and>
             ((unat (b_tx_head s) + j) mod 1024 = unat (b_tx_tail s) \<or>
              \<not> txd_done (b_tx_ring s ((unat (b_tx_head s) + j) mod 1024)))) \<and>
         (\<exists>j s1. j \<le> 1023 \<and> reclaim_tx_descriptors f = Some s1 \<and>
             s1 = f\<lparr>b_tx_head := of_nat ((unat (b_tx_head f) + j) mod 1024)\<rparr> \<and>
             (\<forall>gs g. length gs = j \<longrightarrow>
                (\<exists>s2. send_packets (gs @ [g]) s1 = Some (replicate j True @ [False], s2)))) \<and>
         (\<exists>s1 s2. s1 = (hw_tx_done_oldest k f)
                          \<lparr>b_tx_head := of_nat ((unat (b_tx_head f) + k) mod 1024)\<rparr> \<and>
                  reclaim_tx_descriptors (hw_tx_done_oldest k f) = Some s1 \<and>
                  send_packets (fs @ [g]) s1 = Some (replicate k True @ [False], s2))"
  using reclaim_total [OF s_head s_tail] reclaim_restores_its_count [OF f_tail full]
    reclaim_after_completions [OF f_tail full pending k frames(1), of g]
  by (intro conjI)

theorem C5_witness:
  "tx_ring_full bnx_full_example \<and>
   (\<exists>j. reclaim_tx_descriptors bnx_done_example =
           Some (bnx_done_example\<lparr>b_tx_head := of_nat ((unat (b_tx_head bnx_done_example) + j) mod 1024)\<rparr>) \<and>
         (\<forall>i<j. txd_done (b_tx_ring bnx_done_example ((unat (b_tx_head bnx_done_example) + i) mod 1024)) \<and>
                (unat (b_tx_head bnx_done_example) + i) mod 1024 \<noteq> unat (b_tx_tail bnx_done_example)) \<and>
         ((unat (b_tx_head bnx_done_example) + j) mod 1024 = unat (b_tx_tail bnx_done_example) \<or>
          \<not> txd_done (b_tx_ring bnx_done_example ((unat (b_tx_head bnx_done_example) + j) mod 1024)))) \<and>
   (\<exists>j s1. j \<le> 1023 \<and> reclaim_tx_descriptors bnx_full_example = Some s1 \<and>
       s1 = bnx_full_example\<lparr>b_tx_head := of_nat ((unat (b_tx_head bnx_full_example) + j) mod 1024)\<rparr> \<and>
       (\<forall>gs g. length gs = j \<longrightarrow>
          (\<exists>s2. send_packets (gs @ [g]) s1 = Some (replicate j True @ [False], s2)))) \<and>
   (\<exists>s1 s2. s1 = (hw_tx_done_oldest 3 bnx_full_example)\<lparr>b_tx_head := 3\<rparr> \<and>
            reclaim_tx_descriptors (hw_tx_done_oldest 3 bnx_full_example) = Some s1 \<and>
            send_packets [frame64, frame64, frame64, frame64] s1 = Some ([True, True, True, False], s2))"
proof -
  have h1: "unat (b_tx_head bnx_done_example) < 1024" "unat (b_tx_tail bnx_done_example) < 1024"
    by (simp_all add: bnx_done_example_fields)
  have h2: "unat (b_tx_tail bnx_full_example) < 1024"
    by (simp add: bnx_full_example_fields)
  have h3: "tx_ring_full bnx_full_example"
    by (simp add: tx_ring_full_def bnx_full_example_fields BNX_TX_RING_SIZE_def)
  have h4: "\<forall>i<1023. \<not> txd_done (b_tx_ring bnx_full_example ((unat (b_tx_head bnx_full_example) + i) mod 1024))"
    by (simp add: bnx_full_example_fields txd_done_zero)
  have h5: "(3::nat) \<le> 1023" "length [frame64, frame64, frame64] = 3"
    "\<forall>x\<in>set ([frame64, frame64, frame64] @ [frame64]). unat (snd x) \<le> unat MAX_PACKET_SIZE"
    by (simp_all add: frame64_def MAX_PACKET_SIZE_def)
  note inst = C5_reclaim_tx_descriptors [OF h1 h2 h3 h4 h5]
  have e1: "(of_nat ((unat (b_tx_head bnx_full_example) + 3) mod 1024) :: u32) = 3"
    by (simp add: bnx_full_example_fields)
  have e2: "[frame64, frame64, frame64] @ [frame64] = [frame64, frame64, frame64, frame64]"
    by simp
  have e3: "replicate 3 True @ [False] = [True, True, True, False]"
    by (simp add: numeral_3_eq_3)
  from inst [THEN conjunct2, THEN conjunct2]
  have "\<exists>s1 s2. s1 = (hw_tx_done_oldest 3 bnx_full_example)\<lparr>b_tx_head := 3\<rparr> \<and>
            reclaim_tx_descriptors (hw_tx_done_oldest 3 bnx_full_example) = Some s1 \<and>
            send_packets [frame64, frame64, frame64, frame64] s1 = Some ([True, True, True, False], s2)"
    unfolding e1 e2 e3 .
  with h3 inst [THEN conjunct1] inst [THEN conjunct2, THEN conjunct1] show ?thesis
    by (intro conjI)
qed

text \<open>
  C5 as stated speaks of the device marking \<open>k\<close> pending descriptors, in no particular
  order.  The reclaim loop stops at the first descriptor from the head whose DD bit is
  clear, so a completion that is not the oldest one frees nothing.  On the full ring
  (head 0, tail 1023, slots 0 to 1022 pending, none done) the device marks the one
  descriptor in slot 5, so \<open>k = 1\<close>: the reclaim returns the state unchanged and the next
  call of \<open>send_packet\<close> returns \<open>false\<close>, no further submission succeeds.
\<close>

theorem C5_counterexample:
  "tx_ring_full bnx_full_example \<and>
   b_tx_head bnx_full_example = 0 \<and> b_tx_tail bnx_full_example = 1023 \<and>
   \<not> txd_done (b_tx_ring bnx_full_example 5) \<and>
   txd_done (b_tx_ring (hw_tx_done 5 bnx_full_example) 5) \<and>
   reclaim_tx_descriptors (hw_tx_done 5 bnx_full_example) = Some (hw_tx_done 5 bnx_full_example) \<and>
   send_packets [frame64] (hw_tx_done 5 bnx_full_example) =
     Some ([False], hw_tx_done 5 bnx_full_example)"
proof -
  let ?s = "hw_tx_done 5 bnx_full_example"
  have full: "tx_ring_full bnx_full_example"
    by (simp add: tx_ring_full_def bnx_full_example_fields BNX_TX_RING_SIZE_def)
  have cur: "b_tx_head ?s = 0" "b_tx_tail ?s = 1023"
    by (simp_all add: hw_tx_done_def bnx_full_example_fields)
  have full': "tx_ring_full ?s"
    by (simp add: tx_ring_full_def cur BNX_TX_RING_SIZE_def)
  have before: "\<not> txd_done (b_tx_ring bnx_full_example 5)"
    by (simp add: bnx_full_example_fields txd_done_zero)
  have after: "txd_done (b_tx_ring ?s 5)"
    by (simp add: hw_tx_done_done)
  have oldest: "\<not> txd_done (b_tx_ring ?s (unat (b_tx_head ?s)))"
    by (simp add: cur hw_tx_done_done bnx_full_example_fields txd_done_zero)
  then have rec: "reclaim_tx_descriptors ?s = Some ?s"
    by (subst reclaim_tx_descriptors.simps) simp
  from send_packet_stuck [OF full' oldest]
  have "send_packets [frame64] ?s = Some ([False], ?s)"
    by simp
  with full before after rec show ?thesis
    by (simp add: bnx_full_example_fields)
qed



subsection \<open>C6: Polling an empty head slot\<close>

text \<open>
  C6.  In every state in which the descriptor at the software head index has DD clear,
  \<open>BroadcomNetXtreme::receive_packet\<close> and \<open>CustomNICDriver::poll_rx\<close> return "no packet"
  and return the state they were given: cursors, descriptors, buffers, counters and
  registers are all unchanged.
\<close>

theorem C6_receive_without_dd_changes_nothing:
  "(\<not> bit (rxd_status (b_rx_ring s (unat (b_rx_head s)))) 0 \<longrightarrow> receive_packet s = (None, s)) \<and>
   (\<not> bit (status_flags (c_rx_ring c (unat (c_rx_head c)))) 0 \<longrightarrow>
      CustomNICDriver_poll_rx c = (None, c))"
  by (simp add: receive_packet_idle CustomNICDriver_poll_rx_idle)

theorem C6_witness:
  "receive_packet bnx_example = (None, bnx_example) \<and>
   read_reg32 custom_polled_example RX_HEAD \<noteq> c_rx_head custom_polled_example \<and>
   CustomNICDriver_poll_rx custom_polled_example = (None, custom_polled_example)"
proof -
  have h1: "\<not> bit (rxd_status (b_rx_ring bnx_example (unat (b_rx_head bnx_example)))) 0"
    by (simp add: bnx_example_fields bnx_example_rx_fields zero_RxDescriptor_def)
  have h2: "\<not> bit (status_flags (c_rx_ring custom_polled_example
      (unat (c_rx_head custom_polled_example)))) 0"
    by (simp add: custom_polled_example_def custom_example_fields zero_RXDescriptor_def)
  have h3: "read_reg32 custom_polled_example RX_HEAD \<noteq> c_rx_head custom_polled_example"
    by (simp add: custom_polled_example_def custom_example_fields read_reg32_def)
  note inst = C6_receive_without_dd_changes_nothing [of bnx_example custom_polled_example]
  from inst [THEN conjunct1, rule_format, OF h1] inst [THEN conjunct2, rule_format, OF h2] h3
  show ?thesis by simp
qed


subsection \<open>C7: the order of stores seen by the device\<close>

text \<open>
  C7 is about the order in which the device observes the driver's stores to descriptor
  and buffer memory and to the tail registers.  The model gives the result of each
  operation on the state and has no order of stores within one, so C7 is not stated
  here.
\<close>


subsection \<open>C8: The statistics counters\<close>

text \<open>
  C8, as amended.  Along every sequence \<open>es\<close> of \<open>receive_packet\<close>, \<open>send_packet\<close>,
  \<open>reclaim_tx_descriptors\<close> and getter calls, interleaved in any way with the device's
  completions, started in a state whose TX cursors lie in the ring, every call returns, and
  the counters \<open>packets_received_\<close> and \<open>packets_sent_\<close> end at their initial value plus a
  number of increments that is at most the length of the sequence, the addition being that
  of \<open>uint64_t\<close>; they are never written otherwise.  So each counter is non-decreasing over
  the sequence as long as it cannot pass \<open>2^64 - 1\<close> within it.  Reading the statistics
  (\<open>get_packets_received\<close>, \<open>get_packets_sent\<close>, \<open>CustomNICDriver::get_stats\<close>) returns the
  state unchanged; \<open>CustomNICDriver::get_stats\<close> always returns a zeroed \<open>PacketStats\<close>.
\<close>

theorem C8_counters_along_a_run:
  assumes "unat (b_tx_head s) < 1024" and "unat (b_tx_tail s) < 1024"
  shows "(\<exists>s' a b. bnx_run es s = Some s' \<and> a \<le> length es \<and> b \<le> length es \<and>
            b_packets_received s' = b_packets_received s + of_nat a \<and>
            b_packets_sent s' = b_packets_sent s + of_nat b \<and>
            (unat (b_packets_received s) + length es < 2 ^ 64 \<longrightarrow>
               unat (b_packets_received s) \<le> unat (b_packets_received s')) \<and>
            (unat (b_packets_sent s) + length es < 2 ^ 64 \<longrightarrow>
               unat (b_packets_sent s) \<le> unat (b_packets_sent s'))) \<and>
         get_packets_received s = (b_packets_received s, s) \<and>
         get_packets_sent s = (b_packets_sent s, s) \<and>
         CustomNICDriver_get_stats c = (PacketStats_new, c)"
proof -
  from assms have "tx_cursors_in_ring s"
    by (simp add: tx_cursors_in_ring_def)
  from bnx_run_counted [OF this, of es] obtain s' a b
    where run: "bnx_run es s = Some s'" and a: "a \<le> length es" and b: "b \<le> length es"
      and ra: "b_packets_received s' = b_packets_received s + of_nat a"
      and sb: "b_packets_sent s' = b_packets_sent s + of_nat b"
    by blast
  have "unat (b_packets_received s) \<le> unat (b_packets_received s')"
    if "unat (b_packets_received s) + length es < 2 ^ 64"
  proof -
    from that a have "unat (b_packets_received s) + a < 2 ^ 64" by simp
    then have "unat (b_packets_received s') = unat (b_packets_received s) + a"
      unfolding ra by (rule unat_add_small)
    then show ?thesis by simp
  qed
  moreover have "unat (b_packets_sent s) \<le> unat (b_packets_sent s')"
    if "unat (b_packets_sent s) + length es < 2 ^ 64"
  proof -
    from that b have "unat (b_packets_sent s) + b < 2 ^ 64" by simp
    then have "unat (b_packets_sent s') = unat (b_packets_sent s) + b"
      unfolding sb by (rule unat_add_small)
    then show ?thesis by simp
  qed
  ultimately have "\<exists>s' a b. bnx_run es s = Some s' \<and> a \<le> length es \<and> b \<le> length es \<and>
            b_packets_received s' = b_packets_received s + of_nat a \<and>
            b_packets_sent s' = b_packets_sent s + of_nat b \<and>
            (unat (b_packets_received s) + length es < 2 ^ 64 \<longrightarrow>
               unat (b_packets_received s) \<le> unat (b_packets_received s')) \<and>
            (unat (b_packets_sent s) + length es < 2 ^ 64 \<longrightarrow>
               unat (b_packets_sent s) \<le> unat (b_packets_sent s'))"
    using run a b ra sb by blast
  then show ?thesis
    by (simp add: get_packets_received_def get_packets_sent_def CustomNICDriver_get_stats_def)
qed

theorem C8_witness:
  "unat (b_packets_received bnx_example) + 6 < 2 ^ 64 \<and>
   unat (b_packets_sent bnx_example) + 6 < 2 ^ 64 \<and>
   (\<exists>s'. bnx_run [HwRxFrame 0 64, Receive, Send (fst frame64) (snd frame64), Reclaim,
                   GetPacketsReceived, GetPacketsSent] bnx_example = Some s' \<and>
         unat (b_packets_received bnx_example) \<le> unat (b_packets_received s') \<and>
         unat (b_packets_sent bnx_example) \<le> unat (b_packets_sent s')) \<and>
   get_packets_received bnx_example = (0, bnx_example) \<and>
   CustomNICDriver_get_stats custom_example = (PacketStats_new, custom_example)"
proof -
  have h: "unat (b_tx_head bnx_example) < 1024" "unat (b_tx_tail bnx_example) < 1024"
    by (simp_all add: bnx_example_fields)
  have r: "unat (b_packets_received bnx_example) +
      length [HwRxFrame 0 64, Receive, Send (fst frame64) (snd frame64), Reclaim,
              GetPacketsReceived, GetPacketsSent] < 2 ^ 64"
    and t: "unat (b_packets_sent bnx_example) +
      length [HwRxFrame 0 64, Receive, Send (fst frame64) (snd frame64), Reclaim,
              GetPacketsReceived, GetPacketsSent] < 2 ^ 64"
    by (simp_all add: bnx_example_fields)
  note inst = C8_counters_along_a_run [OF h,
      of "[HwRxFrame 0 64, Receive, Send (fst frame64) (snd frame64), Reclaim,
           GetPacketsReceived, GetPacketsSent]" custom_example]
  from inst [THEN conjunct1] r t
  have "\<exists>s'. bnx_run [HwRxFrame 0 64, Receive, Send (fst frame64) (snd frame64), Reclaim,
                   GetPacketsReceived, GetPacketsSent] bnx_example = Some s' \<and>
         unat (b_packets_received bnx_example) \<le> unat (b_packets_received s') \<and>
         unat (b_packets_sent bnx_example) \<le> unat (b_packets_sent s')"
    by blast
  moreover from r t have "unat (b_packets_received bnx_example) + 6 < 2 ^ 64"
    "unat (b_packets_sent bnx_example) + 6 < 2 ^ 64"
    by simp_all
  moreover from inst have "get_packets_received bnx_example = (0, bnx_example)"
    by (simp add: bnx_example_fields)
  moreover from inst have "CustomNICDriver_get_stats custom_example = (PacketStats_new, custom_example)"
    by simp
  ultimately show ?thesis by blast
qed

text \<open>
  C8 as stated fails where a counter wraps: one \<open>receive_packet\<close> with
  \<open>packets_received_\<close> at \<open>2^64 - 1\<close> leaves the counter at 0.
\<close>

theorem C8_counterexample:
  "bnx_run [Receive] bnx_wrap_example = Some (snd (receive_packet bnx_wrap_example)) \<and>
   b_packets_received bnx_wrap_example = 0xFFFFFFFFFFFFFFFF \<and>
   b_packets_received (snd (receive_packet bnx_wrap_example)) = 0 \<and>
   unat (b_packets_received (snd (receive_packet bnx_wrap_example))) <
     unat (b_packets_received bnx_wrap_example)"
proof -
  have dd: "bit (rxd_status (b_rx_ring bnx_wrap_example (unat (b_rx_head bnx_wrap_example)))) 0"
    by (simp add: bnx_wrap_example_def bnx_rx_example_def bnx_rx_example_fields)
  have before: "b_packets_received bnx_wrap_example = 0xFFFFFFFFFFFFFFFF"
    by (simp add: bnx_wrap_example_def)
  have after: "b_packets_received (snd (receive_packet bnx_wrap_example)) = 0"
    using dd by (simp add: receive_packet_done before)
  show ?thesis
    by (simp add: before after)
qed


subsection \<open>C9: The simulated receive path\<close>

text \<open>
  C9.  After \<open>SolarflareEFVI::initialize\<close> on a newly constructed object (it always returns
  \<open>true\<close>), \<open>rx_posted_\<close> equals \<open>EFVI_RX_RING_SIZE\<close>; whatever sequence \<open>cs\<close> of
  \<open>poll_rx\<close>, \<open>submit_tx\<close> and \<open>poll_tx_completions\<close> calls follows, every \<open>poll_rx\<close> in it
  returned \<open>true\<close> with a length of 64, \<open>rx_posted_\<close> is still \<open>EFVI_RX_RING_SIZE\<close>, and the
  next \<open>poll_rx\<close> again returns \<open>true\<close> with length 64 and leaves the whole object as it was.
\<close>

theorem C9_simulated_poll_rx_always_has_packet:
  "let s1 = snd (SolarflareEFVI_initialize iface (SolarflareEFVI_new h m));
       s2 = snd (ef_run cs s1)
   in fst (SolarflareEFVI_initialize iface (SolarflareEFVI_new h m)) \<and>
      ef_rx_posted s1 = ucast EFVI_RX_RING_SIZE \<and>
      list_all fabricated (fst (ef_run cs s1)) \<and>
      ef_rx_posted s2 = ucast EFVI_RX_RING_SIZE \<and>
      SolarflareEFVI_poll_rx now pkt s2 = (True, pkt\<lparr>len := 64, timestamp_ns := now\<rparr>, s2)"
proof -
  define s1 where "s1 = snd (SolarflareEFVI_initialize iface (SolarflareEFVI_new h m))"
  have ok: "fst (SolarflareEFVI_initialize iface (SolarflareEFVI_new h m))"
    by (simp add: SolarflareEFVI_initialize_def Let_def)
  have init: "ef_initialized s1"
    by (simp add: s1_def initialize_state allocate_packet_buffers_def)
  have posted: "ef_rx_posted s1 = 512"
    by (simp add: s1_def initialize_state allocate_packet_buffers_def SolarflareEFVI_new_def)
  then have nz: "ef_rx_posted s1 \<noteq> 0"
    by simp
  note run = ef_run_always_packet [OF init nz, of cs]
  from run have "SolarflareEFVI_poll_rx now pkt (snd (ef_run cs s1)) =
      (True, pkt\<lparr>len := 64, timestamp_ns := now\<rparr>, snd (ef_run cs s1))"
    by (intro poll_rx_posted) (simp_all add: nz)
  with ok posted run show ?thesis
    by (simp add: Let_def EFVI_RX_RING_SIZE_def flip: s1_def)
qed

theorem C9_witness:
  "let s1 = snd (SolarflareEFVI_initialize ''eth0'' (SolarflareEFVI_new example_handle (\<lambda>a. 0)));
       s2 = snd (ef_run [PollRx 5 example_packet, SubmitTx (\<lambda>a. 1) 64, PollTxCompletions,
                         PollRx 9 example_packet] s1)
   in ef_rx_posted s1 = 512 \<and> ef_rx_posted s2 = 512 \<and>
      SolarflareEFVI_poll_rx 11 example_packet s2 =
        (True, example_packet\<lparr>len := 64, timestamp_ns := 11\<rparr>, s2)"
  using C9_simulated_poll_rx_always_has_packet [of "''eth0''" example_handle "\<lambda>a. 0"
      "[PollRx 5 example_packet, SubmitTx (\<lambda>a. 1) 64, PollTxCompletions, PollRx 9 example_packet]"
      11 example_packet]
  by (simp add: Let_def EFVI_RX_RING_SIZE_def)


subsection \<open>C10: The buffer pointer of the simulated transmit path\<close>

text \<open>
  C10.  The claim is that a \<open>submit_tx\<close> returning \<open>true\<close> copied through a non-null
  \<open>handle_.pkt_bufs[tx_posted_]\<close>.  On the object \<open>initialize\<close> leaves behind, the first
  \<open>submit_tx\<close> of a 64-byte frame returns \<open>true\<close>, and the pointer it copied the 64 bytes
  through is the null pointer that \<open>allocate_packet_buffers\<close> stored.
\<close>

theorem C10_submit_tx_copies_through_null:
  "let s1 = snd (SolarflareEFVI_initialize iface (SolarflareEFVI_new h m))
   in tx_buf_of s1 = nullptr \<and>
      SolarflareEFVI_submit_tx dat 64 s1 =
        (True, s1\<lparr>ef_mem := memcpy_ptr m nullptr dat 64, ef_tx_posted := 1\<rparr>)"
  by (simp add: initialize_state allocate_packet_buffers_def SolarflareEFVI_new_def tx_buf_of_def
      SolarflareEFVI_submit_tx_def EFVI_NUM_BUFS_def EFVI_PKT_BUF_SIZE_def EFVI_TX_RING_SIZE_def Let_def)

end
